theory Spec2Isabelle
  imports Complex_Main
begin

section \<open>Strings as the source uses them\<close>

text \<open>
  Source strings are modelled as \<^typ>\<open>string\<close> (lists of 8-bit characters), so the
  model covers texts in the Latin-1 range. The helpers below are the JavaScript
  string primitives the source calls.
\<close>

definition NL :: char where
  "NL = CHR 0x0A"

definition SP :: char where
  "SP = CHR 0x20"

text \<open>White space as \<open>String.prototype.trim\<close> and the regex class \<open>\s\<close> see it
  (tab, line feed, vertical tab, form feed, carriage return, space, no-break space).\<close>

definition isWhiteSpace :: "char \<Rightarrow> bool" where
  "isWhiteSpace c \<longleftrightarrow>
     c = CHR 0x09 \<or> c = CHR 0x0A \<or> c = CHR 0x0B \<or> c = CHR 0x0C \<or> c = CHR 0x0D
     \<or> c = CHR 0x20 \<or> c = CHR 0xA0"

definition trim :: "string \<Rightarrow> string" where
  "trim s = rev (dropWhile isWhiteSpace (rev (dropWhile isWhiteSpace s)))"

text \<open>\<open>s.slice(a, b)\<close> for non-negative indices.\<close>

definition slice :: "'a list \<Rightarrow> nat \<Rightarrow> nat \<Rightarrow> 'a list" where
  "slice s a b = take (b - a) (drop a s)"

section \<open>Data model (types.ts)\<close>

type_synonym vec = "real list"

record ChunkMetadata =
  md_source :: string
  md_title :: string
  md_section :: "string option"
  md_position :: nat
  md_chunkIndex :: nat
  md_totalChunks :: nat
  md_documentId :: string
  md_timestamp :: string
  md_fileType :: string
  md_tokens :: nat

record DocumentChunk =
  chunk_id :: string
  chunk_content :: string
  chunk_metadata :: ChunkMetadata
  chunk_embedding :: "vec option"

record UploadedFile =
  file_name :: string
  file_size :: nat
  file_type :: string
  file_content :: string
  file_lastModified :: int
  file_contentHash :: "string option"

record RetrievalResult =
  rr_chunk :: DocumentChunk
  rr_score :: real
  rr_rerankedScore :: "real option"

section \<open>Embedding batch manager (embeddingsOptimized.ts)\<close>

text \<open>Constants of \<open>config.embeddings\<close>.\<close>

definition batchSize :: nat where
  "batchSize = 30"

definition parallelBatches :: nat where
  "parallelBatches = 8"

definition maxRetries :: nat where
  "maxRetries = 1"

text \<open>
  The external embedding provider. One invocation of \<open>model.embedContent\<close> either
  yields a vector or fails; whether it fails is decided outside the program, so the
  answer to one attempt is a function of the attempt number and the text sent.
\<close>

type_synonym embedContent = "nat \<Rightarrow> string \<Rightarrow> vec option"

datatype error =
  EmbeddingFailed
  | DimensionMismatch
  | RetrievalFailed
  | MMRRetrievalFailed
  | RerankFailed
  | MalformedRerankResult
  | GenerationFailed

text \<open>\<open>text.replace(/\n/g, ' ')\<close>\<close>

definition replaceNewlines :: "string \<Rightarrow> string" where
  "replaceNewlines s = map (\<lambda>c. if c = NL then SP else c) s"

text \<open>\<open>generateEmbedding(text, retryCount)\<close>: a failed attempt is retried while
  \<open>retryCount < maxRetries\<close>; afterwards the error is thrown.\<close>

function generateEmbedding :: "embedContent \<Rightarrow> string \<Rightarrow> nat \<Rightarrow> error + vec" where
  "generateEmbedding api text retryCount =
     (case api retryCount (replaceNewlines text) of
        Some values \<Rightarrow> Inr values
      | None \<Rightarrow>
          if retryCount < maxRetries then generateEmbedding api text (retryCount + 1)
          else Inl EmbeddingFailed)"
  by pat_completeness auto
termination
  by (relation "measure (\<lambda>(api, text, retryCount). maxRetries - retryCount)") auto

text \<open>The batches built by the first loop of \<open>generateEmbeddings\<close>: the texts of
  positions \<open>i .. i + batchSize\<close> with their original indices.\<close>

function makeBatches :: "string list \<Rightarrow> nat \<Rightarrow> (string list \<times> nat list) list" where
  "makeBatches texts i =
     (if i < length texts then
        (let batchTexts = slice texts i (i + batchSize);
             batchIndices = map (\<lambda>idx. i + idx) [0..<length batchTexts]
         in (batchTexts, batchIndices) # makeBatches texts (i + batchSize))
      else [])"
  by pat_completeness auto
termination
  by (relation "measure (\<lambda>(texts, i). length texts - i)") (auto simp: batchSize_def)

text \<open>
  \<open>processBatch\<close>: every text of the batch is embedded on its own; a failure is
  caught per item and leaves that item's slot \<open>null\<close>. A success is stored at the
  item's original index, so the order in which the concurrent calls complete does not
  matter. The provider's answers for the item with index \<open>i\<close> are \<open>apis i\<close>.
\<close>

definition storeResult ::
  "(nat \<Rightarrow> embedContent) \<Rightarrow> string \<times> nat \<Rightarrow> vec option list \<Rightarrow> vec option list" where
  "storeResult apis item embeddings =
     (case generateEmbedding (apis (snd item)) (fst item) 0 of
        Inr embedding \<Rightarrow> embeddings[snd item := Some embedding]
      | Inl _ \<Rightarrow> embeddings)"

definition processBatch ::
  "(nat \<Rightarrow> embedContent) \<Rightarrow> string list \<times> nat list \<Rightarrow> vec option list \<Rightarrow> vec option list" where
  "processBatch apis batch embeddings =
     fold (storeResult apis) (zip (fst batch) (snd batch)) embeddings"

text \<open>The batch groups: \<open>batches.slice(i, i + parallelBatches)\<close> for
  \<open>i = 0, parallelBatches, ...\<close>, one group after the other.\<close>

function processGroups ::
  "(nat \<Rightarrow> embedContent) \<Rightarrow> (string list \<times> nat list) list \<Rightarrow> nat \<Rightarrow> vec option list
     \<Rightarrow> vec option list" where
  "processGroups apis batches i embeddings =
     (if i < length batches then
        processGroups apis batches (i + parallelBatches)
          (fold (processBatch apis) (slice batches i (i + parallelBatches)) embeddings)
      else embeddings)"
  by pat_completeness auto
termination
  by (relation "measure (\<lambda>(apis, batches, i, embeddings). length batches - i)")
     (auto simp: parallelBatches_def)

text \<open>
  \<open>generateEmbeddings\<close> returns the successful vectors only, in index order. The
  indices of the failed items are not returned: they are written to the warning log,
  which is the second component here.
\<close>

definition generateEmbeddings ::
  "(nat \<Rightarrow> embedContent) \<Rightarrow> string list \<Rightarrow> vec list \<times> nat list" where
  "generateEmbeddings apis texts =
     (if length texts = 0 then ([], [])
      else
        (let embeddings = processGroups apis (makeBatches texts 0) 0
                            (replicate (length texts) None);
             successfulEmbeddings = List.map_filter (\<lambda>e. e) embeddings;
             failedIndices = filter (\<lambda>index. embeddings ! index = None) [0..<length embeddings]
         in (successfulEmbeddings, failedIndices)))"

text \<open>
  \<open>generateChunkEmbeddings\<close>: the loop walks the chunks in order and gives chunk
  \<open>i\<close> the vector at \<open>embeddingIndex\<close> as long as vectors remain; the chunks after
  that are skipped with a warning naming \<open>i\<close>. The result is the list of embedded
  chunks and the chunk indices named in the skip warnings.
\<close>

fun attachEmbeddings ::
  "DocumentChunk list \<Rightarrow> vec list \<Rightarrow> nat \<Rightarrow> nat \<Rightarrow> DocumentChunk list \<times> nat list" where
  "attachEmbeddings [] embeddings i embeddingIndex = ([], [])"
| "attachEmbeddings (c # cs) embeddings i embeddingIndex =
     (if embeddingIndex < length embeddings then
        (let r = attachEmbeddings cs embeddings (i + 1) (embeddingIndex + 1)
         in (c\<lparr>chunk_embedding := Some (embeddings ! embeddingIndex)\<rparr> # fst r, snd r))
      else
        (let r = attachEmbeddings cs embeddings (i + 1) embeddingIndex
         in (fst r, i # snd r)))"

definition generateChunkEmbeddings ::
  "(nat \<Rightarrow> embedContent) \<Rightarrow> DocumentChunk list \<Rightarrow> DocumentChunk list \<times> nat list" where
  "generateChunkEmbeddings apis chunks =
     (if length chunks = 0 then ([], [])
      else
        (let texts = map chunk_content chunks;
             embeddings = fst (generateEmbeddings apis texts)
         in attachEmbeddings chunks embeddings 0 0))"

section \<open>Chunker (textProcessorOptimized.ts)\<close>

text \<open>Constants of \<open>config.chunking\<close>.\<close>

definition chunkSize :: nat where
  "chunkSize = 300"

definition chunkOverlap :: nat where
  "chunkOverlap = 30"

definition separators :: "string list" where
  "separators = [[NL, NL], [NL], ''. '', ''! '', ''? '', ''; '', '', '', '' '', []]"

definition maxChunksPerDocument :: nat where
  "maxChunksPerDocument = 500"

definition minChunkLength :: nat where
  "minChunkLength = 30"

subsection \<open>Token counting\<close>

text \<open>
  The tokenizer is the external tiktoken encoder: absent when its construction failed,
  and an encoding call may itself throw (\<open>None\<close>). In both cases \<open>countTokens\<close>
  falls back to the approximation
  \<open>max (ceil (words * 1.3 + punctuation * 0.5)) (ceil (length / 4))\<close>, written here
  with integer arithmetic.
\<close>

type_synonym tokenizer = "(string \<Rightarrow> nat option) option"

fun countWords :: "string \<Rightarrow> nat" where
  "countWords [] = 0"
| "countWords [c] = (if isWhiteSpace c then 0 else 1)"
| "countWords (c # d # s) =
     (if \<not> isWhiteSpace c \<and> isWhiteSpace d then 1 else 0) + countWords (d # s)"

definition isPunctuation :: "char \<Rightarrow> bool" where
  "isPunctuation c \<longleftrightarrow>
     c \<in> set ''.,;:!?()[]{}'' \<or> c = CHR 0x22 \<or> c = CHR 0x27 \<or> c = CHR 0x60"

definition approximateTokens :: "string \<Rightarrow> nat" where
  "approximateTokens text =
     (let words = countWords text;
          punctuation = length (filter isPunctuation text);
          approximate = (13 * words + 5 * punctuation + 9) div 10;
          charBasedTokens = (length text + 3) div 4
      in max approximate charBasedTokens)"

definition countTokens :: "tokenizer \<Rightarrow> string \<Rightarrow> nat" where
  "countTokens tokenizer text =
     (case tokenizer of
        Some encode \<Rightarrow> (case encode text of Some n \<Rightarrow> n | None \<Rightarrow> approximateTokens text)
      | None \<Rightarrow> approximateTokens text)"

text \<open>\<open>tokensToChars\<close>: \<open>Math.floor(tokens * 3.5)\<close>.\<close>

definition tokensToChars :: "nat \<Rightarrow> nat" where
  "tokensToChars tokens = (7 * tokens) div 2"

subsection \<open>Split points\<close>

text \<open>\<open>text.lastIndexOf(separator, fromIndex)\<close>: the largest index not above
  \<open>fromIndex\<close> at which the separator occurs, \<open>None\<close> for \<open>-1\<close>. The scan walks
  the text once, remembering the last occurrence seen.\<close>

fun startsWith :: "string \<Rightarrow> string \<Rightarrow> bool" where
  "startsWith text [] = True"
| "startsWith [] (s # ss) = False"
| "startsWith (c # cs) (s # ss) = (c = s \<and> startsWith cs ss)"

fun lastIndexScan :: "string \<Rightarrow> string \<Rightarrow> nat \<Rightarrow> nat \<Rightarrow> nat option \<Rightarrow> nat option" where
  "lastIndexScan [] separator i fromIndex found =
     (if separator = [] \<and> i \<le> fromIndex then Some i else found)"
| "lastIndexScan (c # cs) separator i fromIndex found =
     (if i > fromIndex then found
      else lastIndexScan cs separator (i + 1) fromIndex
             (if startsWith (c # cs) separator then Some i else found))"

definition lastIndexOf :: "string \<Rightarrow> string \<Rightarrow> nat \<Rightarrow> nat option" where
  "lastIndexOf text separator fromIndex = lastIndexScan text separator 0 fromIndex None"

fun separatorSplit :: "string \<Rightarrow> nat \<Rightarrow> nat \<Rightarrow> string list \<Rightarrow> nat option" where
  "separatorSplit text start end [] = None"
| "separatorSplit text start end (separator # rest) =
     (case lastIndexOf text separator end of
        Some lastIndex \<Rightarrow>
          if lastIndex > start \<and> lastIndex < end then Some (lastIndex + length separator)
          else separatorSplit text start end rest
      | None \<Rightarrow> separatorSplit text start end rest)"

text \<open>The word-boundary loop \<open>for (i = end; i > start; i--)\<close>; reading \<open>text[i]\<close>
  at \<open>i = text.length\<close> gives \<open>undefined\<close>, which is neither a space nor a line feed.\<close>

definition wordBoundary :: "string \<Rightarrow> nat \<Rightarrow> nat \<Rightarrow> nat option" where
  "wordBoundary text start end =
     List.find (\<lambda>i. i < length text \<and> (text ! i = SP \<or> text ! i = NL))
       (rev [Suc start..<Suc end])"

definition findBestSplitPoint :: "string \<Rightarrow> nat \<Rightarrow> nat \<Rightarrow> string list \<Rightarrow> nat" where
  "findBestSplitPoint text start end0 seps =
     (let end = min end0 (length text)
      in case separatorSplit text start end seps of
           Some p \<Rightarrow> p
         | None \<Rightarrow> (case wordBoundary text start end of Some i \<Rightarrow> i | None \<Rightarrow> end))"

subsection \<open>The chunking loop\<close>

text \<open>
  The metadata handed to \<open>createTokenBasedChunks\<close>: everything but \<open>chunkIndex\<close>,
  \<open>totalChunks\<close> and \<open>tokens\<close>; its \<open>position\<close> is the section's position.
  \<open>addChunk\<close> builds the chunk. The chunk id is a fresh uuid: \<open>processFile\<close> draws
  one uuid for the document and then one per chunk, so the chunk with index \<open>k\<close>
  carries the draw number \<open>k + 1\<close> of the uuid source \<open>uuid\<close>.
\<close>

definition addChunk ::
  "(nat \<Rightarrow> string) \<Rightarrow> string \<Rightarrow> nat \<Rightarrow> ChunkMetadata \<Rightarrow> nat \<Rightarrow> DocumentChunk" where
  "addChunk uuid content tokens baseMetadata chunkIndex =
     \<lparr>chunk_id = uuid (Suc chunkIndex),
      chunk_content = content,
      chunk_metadata = baseMetadata
        \<lparr>md_chunkIndex := chunkIndex,
         md_totalChunks := 0,
         md_tokens := tokens,
         md_position := md_position baseMetadata + chunkIndex\<rparr>,
      chunk_embedding = None\<rparr>"

text \<open>
  One pass through the body of the \<open>while\<close> loop at window start \<open>currentPosition\<close>:
  the chunk added (if any) and the next window start. The two \<open>continue\<close> branches
  (empty slice, too few tokens) add nothing and move the start to the split point.
\<close>

definition chunkStep ::
  "tokenizer \<Rightarrow> (nat \<Rightarrow> string) \<Rightarrow> string \<Rightarrow> ChunkMetadata \<Rightarrow> nat \<Rightarrow> nat
     \<Rightarrow> DocumentChunk option \<times> nat" where
  "chunkStep tokenizer uuid text baseMetadata currentPosition chunkIndex =
     (let estimatedEnd = min (currentPosition + tokensToChars chunkSize) (length text);
          chunkEnd = findBestSplitPoint text currentPosition estimatedEnd separators;
          chunkText = trim (slice text currentPosition chunkEnd)
      in if length chunkText = 0 then (None, chunkEnd)
         else
           (let actualTokens = countTokens tokenizer chunkText
            in if actualTokens < minChunkLength then (None, chunkEnd)
               else if 2 * actualTokens > 3 * chunkSize then
                 (let adjustedEnd = currentPosition + tokensToChars chunkSize;
                      chunkEnd' = findBestSplitPoint text currentPosition adjustedEnd separators;
                      adjustedText = trim (slice text currentPosition chunkEnd');
                      adjustedTokens = countTokens tokenizer adjustedText;
                      overlapChars = tokensToChars chunkOverlap
                  in (Some (if adjustedTokens \<ge> minChunkLength \<and> length adjustedText > 0
                            then addChunk uuid adjustedText adjustedTokens baseMetadata chunkIndex
                            else addChunk uuid chunkText actualTokens baseMetadata chunkIndex),
                      max (currentPosition + 1) (chunkEnd' - overlapChars)))
               else
                 (let overlapChars = tokensToChars chunkOverlap
                  in (Some (addChunk uuid chunkText actualTokens baseMetadata chunkIndex),
                      max (currentPosition + 1) (chunkEnd - overlapChars)))))"

text \<open>Every split point lies strictly after the window start.\<close>

lemma separatorSplit_after_start:
  "separatorSplit text start end seps = Some p \<Longrightarrow> start < p"
  by (induction seps) (auto split: option.splits if_splits)

lemma wordBoundary_after_start:
  assumes "wordBoundary text start end = Some i"
  shows "start < i"
proof -
  from assms have "i \<in> set (rev [Suc start..<Suc end])"
    unfolding wordBoundary_def find_Some_iff by (metis nth_mem)
  then show ?thesis by auto
qed

lemma findBestSplitPoint_after_start:
  assumes "start < end0" and "start < length text"
  shows "start < findBestSplitPoint text start end0 seps"
  using assms
  by (auto simp: findBestSplitPoint_def Let_def
           dest: separatorSplit_after_start wordBoundary_after_start
           split: option.splits)

lemma chunkStep_progress:
  assumes "currentPosition < length text"
  shows "currentPosition <
           snd (chunkStep tokenizer uuid text baseMetadata currentPosition chunkIndex)"
proof -
  have a: "currentPosition < min (currentPosition + tokensToChars chunkSize) (length text)"
    using assms by (simp add: tokensToChars_def chunkSize_def)
  have b: "currentPosition < currentPosition + tokensToChars chunkSize"
    by (simp add: tokensToChars_def chunkSize_def)
  have "currentPosition <
          findBestSplitPoint text currentPosition
            (min (currentPosition + tokensToChars chunkSize) (length text)) separators"
    using findBestSplitPoint_after_start [OF a assms] .
  then show ?thesis
    by (simp add: chunkStep_def Let_def less_max_iff_disj)
qed

text \<open>The \<open>while\<close> loop of \<open>createTokenBasedChunks\<close>; \<open>chunkIndex\<close> is incremented
  only after a chunk has been added.\<close>

function chunkLoop ::
  "tokenizer \<Rightarrow> (nat \<Rightarrow> string) \<Rightarrow> string \<Rightarrow> ChunkMetadata \<Rightarrow> DocumentChunk list \<Rightarrow> nat \<Rightarrow> nat
     \<Rightarrow> DocumentChunk list" where
  "chunkLoop tokenizer uuid text baseMetadata chunks currentPosition chunkIndex =
     (if currentPosition < length text \<and> length chunks < maxChunksPerDocument then
        (let r = chunkStep tokenizer uuid text baseMetadata currentPosition chunkIndex
         in case fst r of
              None \<Rightarrow> chunkLoop tokenizer uuid text baseMetadata chunks (snd r) chunkIndex
            | Some chunk \<Rightarrow>
                chunkLoop tokenizer uuid text baseMetadata (chunks @ [chunk]) (snd r)
                  (chunkIndex + 1))
      else chunks)"
  by pat_completeness auto
termination
proof (relation "measure (\<lambda>(tokenizer, uuid, text, baseMetadata, chunks, currentPosition,
                           chunkIndex). length text - currentPosition)", goal_cases)
  case 1
  show ?case by simp
next
  case (2 tokenizer uuid t baseMetadata chunks currentPosition chunkIndex r)
  then have "currentPosition < snd r"
    using chunkStep_progress by auto
  with 2 show ?case by auto
next
  case (3 tokenizer uuid t baseMetadata chunks currentPosition chunkIndex r chunk)
  then have "currentPosition < snd r"
    using chunkStep_progress by auto
  with 3 show ?case by auto
qed

declare chunkLoop.simps [simp del]

text \<open>After the loop every chunk of the list just built gets
  \<open>totalChunks = chunks.length\<close>.\<close>

definition setTotalChunks :: "nat \<Rightarrow> DocumentChunk \<Rightarrow> DocumentChunk" where
  "setTotalChunks n chunk =
     chunk\<lparr>chunk_metadata := (chunk_metadata chunk)\<lparr>md_totalChunks := n\<rparr>\<rparr>"

definition createTokenBasedChunks ::
  "tokenizer \<Rightarrow> (nat \<Rightarrow> string) \<Rightarrow> string \<Rightarrow> ChunkMetadata \<Rightarrow> nat \<Rightarrow> DocumentChunk list" where
  "createTokenBasedChunks tokenizer uuid text baseMetadata startingIndex =
     (let chunks = chunkLoop tokenizer uuid text baseMetadata [] 0 startingIndex
      in map (setTotalChunks (length chunks)) chunks)"

subsection \<open>Normalisation and sections\<close>

definition CR :: char where
  "CR = CHR 0x0D"

fun replaceCRLF :: "string \<Rightarrow> string" where
  "replaceCRLF [] = []"
| "replaceCRLF [c] = [c]"
| "replaceCRLF (c # d # s) =
     (if c = CR \<and> d = NL then NL # replaceCRLF s else c # replaceCRLF (d # s))"

text \<open>\<open>replaceRuns P n rep\<close> replaces every maximal run of at least \<open>n\<close> characters
  satisfying \<open>P\<close> by \<open>rep\<close>: the global replacements \<open>/\n{3,}/g\<close> and \<open>/[ \t]+/g\<close>.\<close>

function replaceRuns :: "(char \<Rightarrow> bool) \<Rightarrow> nat \<Rightarrow> string \<Rightarrow> string \<Rightarrow> string" where
  "replaceRuns P n rep [] = []"
| "replaceRuns P n rep (c # s) =
     (if P c then
        (let run = c # takeWhile P s
         in (if length run \<ge> n then rep else run) @ replaceRuns P n rep (dropWhile P s))
      else c # replaceRuns P n rep s)"
  by pat_completeness auto
termination
  by (relation "measure (\<lambda>(P, n, rep, s). length s)")
     (auto simp: le_imp_less_Suc length_dropWhile_le)

definition cleanText :: "string \<Rightarrow> string" where
  "cleanText text =
     trim
       (map (\<lambda>c. if c = CHR 0xA0 then SP else c)
         (replaceRuns (\<lambda>c. c = SP \<or> c = CHR 0x09) 1 [SP]
           (replaceRuns (\<lambda>c. c = NL) 3 [NL, NL]
             (map (\<lambda>c. if c = CR then NL else c)
               (replaceCRLF text)))))"

text \<open>
  The four header patterns are sequences of single-character classes with greedy
  repetition, anchored at line boundaries (flags \<open>gm\<close>). Such a pattern is matched the
  way the regex engine does it: each repetition first takes as many characters as it
  can and gives them back one by one until the rest of the pattern matches.
\<close>

datatype cls = Hash | White | Dot | Digit | Lit char

definition isLineTerminator :: "char \<Rightarrow> bool" where
  "isLineTerminator c \<longleftrightarrow> c = NL \<or> c = CR"

definition isDigit :: "char \<Rightarrow> bool" where
  "isDigit c \<longleftrightarrow> c \<in> set ''0123456789''"

fun inClass :: "cls \<Rightarrow> char \<Rightarrow> bool" where
  "inClass Hash c = (c = CHR ''#'')"
| "inClass White c = isWhiteSpace c"
| "inClass Dot c = (\<not> isLineTerminator c)"
| "inClass Digit c = isDigit c"
| "inClass (Lit d) c = (c = d)"

text \<open>\<open>Rep c lo hi capture\<close>: between \<open>lo\<close> and \<open>hi\<close> (unbounded for \<open>None\<close>)
  characters of class \<open>c\<close>; \<open>capture\<close> marks the repetition that is group 1.\<close>

datatype item = Bol | Eol | Rep cls nat "nat option" bool

text \<open>
  \<open>matchItems items prev rest pos grp\<close>: the end of the match of \<open>items\<close> starting at
  index \<open>pos\<close>, where \<open>rest\<close> is the text from \<open>pos\<close> on and \<open>prev\<close> the character
  before it; \<open>grp\<close> carries the bounds of group 1. \<open>matchRep\<close> tries a repetition
  with \<open>k\<close> characters and then with fewer, down to \<open>lo\<close>.
\<close>

function matchItems ::
    "item list \<Rightarrow> char option \<Rightarrow> string \<Rightarrow> nat \<Rightarrow> (nat \<times> nat) option
       \<Rightarrow> (nat \<times> (nat \<times> nat) option) option"
  and matchRep ::
    "item list \<Rightarrow> bool \<Rightarrow> nat \<Rightarrow> nat \<Rightarrow> char option \<Rightarrow> string \<Rightarrow> nat \<Rightarrow> (nat \<times> nat) option
       \<Rightarrow> (nat \<times> (nat \<times> nat) option) option" where
  "matchItems [] prev rest pos grp = Some (pos, grp)"
| "matchItems (Bol # items) prev rest pos grp =
     (if (case prev of None \<Rightarrow> True | Some c \<Rightarrow> isLineTerminator c)
      then matchItems items prev rest pos grp else None)"
| "matchItems (Eol # items) prev rest pos grp =
     (if (case rest of [] \<Rightarrow> True | c # cs \<Rightarrow> isLineTerminator c)
      then matchItems items prev rest pos grp else None)"
| "matchItems (Rep c lo hi capture # items) prev rest pos grp =
     (let avail = length (takeWhile (inClass c) rest);
          most = (case hi of None \<Rightarrow> avail | Some h \<Rightarrow> min h avail)
      in matchRep items capture lo most prev rest pos grp)"
| "matchRep items capture lo k prev rest pos grp =
     (if k < lo then None
      else
        (case matchItems items (if k = 0 then prev else Some (rest ! (k - 1))) (drop k rest)
                (pos + k) (if capture then Some (pos, pos + k) else grp) of
           Some r \<Rightarrow> Some r
         | None \<Rightarrow> if k = 0 then None else matchRep items capture lo (k - 1) prev rest pos grp))"
  by pat_completeness auto
termination
  by (relation "inv_image (less_than <*lex*> less_than)
        (\<lambda>x. case x of
                Inl (items, prev, rest, pos, grp) \<Rightarrow> (length items, 0)
              | Inr (items, capture, lo, k, prev, rest, pos, grp) \<Rightarrow> (length items, Suc k))")
     auto

declare matchRep.simps [simp del]

text \<open>The first match at or after \<open>pos\<close>, as \<open>(index, end, group 1)\<close>.\<close>

fun scanMatch ::
  "item list \<Rightarrow> char option \<Rightarrow> string \<Rightarrow> nat \<Rightarrow> (nat \<times> nat \<times> (nat \<times> nat) option) option" where
  "scanMatch items prev [] pos =
     (case matchItems items prev [] pos None of
        Some (e, grp) \<Rightarrow> Some (pos, e, grp)
      | None \<Rightarrow> None)"
| "scanMatch items prev (c # cs) pos =
     (case matchItems items prev (c # cs) pos None of
        Some (e, grp) \<Rightarrow> Some (pos, e, grp)
      | None \<Rightarrow> scanMatch items (Some c) cs (pos + 1))"

definition findMatch ::
  "item list \<Rightarrow> string \<Rightarrow> nat \<Rightarrow> (nat \<times> nat \<times> (nat \<times> nat) option) option" where
  "findMatch items text p =
     scanMatch items (if p = 0 then None else Some (text ! (p - 1))) (drop p text) p"

lemma matchItems_end:
  "matchItems items prev rest pos grp = Some (e, g) \<Longrightarrow> pos \<le> e"
  "matchRep items capture lo k prev rest pos grp = Some (e, g) \<Longrightarrow> pos \<le> e"
proof (induction items prev rest pos grp and items capture lo k prev rest pos grp
       arbitrary: e g and e g rule: matchItems_matchRep.induct)
  case (1 prev rest pos grp)
  then show ?case by simp
next
  case (2 items prev rest pos grp)
  then show ?case by (auto split: if_splits)
next
  case (3 items prev rest pos grp)
  then show ?case by (auto split: if_splits)
next
  case (4 c lo hi capture items prev rest pos grp)
  then show ?case by (auto simp: Let_def)
next
  case (5 items capture lo k prev rest pos grp)
  let ?m = "matchItems items (if k = 0 then prev else Some (rest ! (k - 1))) (drop k rest)
              (pos + k) (if capture then Some (pos, pos + k) else grp)"
  have unfolded:
    "(if k < lo then None
      else (case ?m of
              Some r \<Rightarrow> Some r
            | None \<Rightarrow> if k = 0 then None
                      else matchRep items capture lo (k - 1) prev rest pos grp))
     = Some (e, g)"
    using "5.prems"
    by (simp only: matchRep.simps [of items capture lo k prev rest pos grp] Let_def)
  then have a: "\<not> k < lo"
    by (auto split: if_splits)
  show ?case
  proof (cases ?m)
    case None
    with unfolded a have "k \<noteq> 0"
      and "matchRep items capture lo (k - 1) prev rest pos grp = Some (e, g)"
      by (auto split: if_splits)
    with "5.IH"(2) [OF a None] show ?thesis by simp
  next
    case (Some r)
    with unfolded a have "r = (e, g)" by simp
    with "5.IH"(1) [OF a] Some have "pos + k \<le> e" by simp
    then show ?thesis by simp
  qed
qed

lemma scanMatch_index:
  "scanMatch items prev rest pos = Some (i, e, grp) \<Longrightarrow> pos \<le> i \<and> i \<le> e"
proof (induction rest arbitrary: prev pos)
  case Nil
  then show ?case by (auto split: option.splits dest: matchItems_end(1))
next
  case (Cons c cs)
  show ?case
  proof (cases "matchItems items prev (c # cs) pos None")
    case None
    with Cons.prems have "scanMatch items (Some c) cs (pos + 1) = Some (i, e, grp)"
      by simp
    from Cons.IH [OF this] show ?thesis by simp
  next
    case (Some r)
    with Cons.prems show ?thesis
      by (cases r) (auto dest: matchItems_end(1))
  qed
qed

text \<open>\<open>Array.from(content.matchAll(pattern))\<close>: the matches from left to right, each
  search resuming where the previous match ended (one further after an empty match).
  A match is kept as its index and the text of group 1.\<close>

function matchAllFrom :: "item list \<Rightarrow> string \<Rightarrow> nat \<Rightarrow> (nat \<times> string option) list" where
  "matchAllFrom items text p =
     (if p > length text then []
      else
        (case findMatch items text p of
           None \<Rightarrow> []
         | Some (i, e, grp) \<Rightarrow>
             (i, map_option (\<lambda>(a, b). slice text a b) grp)
               # matchAllFrom items text (if e = i then e + 1 else e)))"
  by pat_completeness auto
termination
proof (relation "measure (\<lambda>(items, text, p). Suc (length text) - p)", goal_cases)
  case 1
  show ?case by simp
next
  case (2 items t p x2 i y e grp)
  then have "p \<le> i \<and> i \<le> e"
    unfolding findMatch_def Let_def using scanMatch_index by metis
  with 2 show ?case by auto
qed

declare matchAllFrom.simps [simp del]

definition markdownHeaders :: "item list" where
  "markdownHeaders =
     [Bol, Rep Hash 1 (Some 6) False, Rep White 1 None False, Rep Dot 1 None True, Eol]"

definition underlinedHeaders :: "char \<Rightarrow> item list" where
  "underlinedHeaders u =
     [Bol, Rep Dot 1 None True, Rep (Lit NL) 1 (Some 1) False, Rep (Lit u) 1 None False, Eol]"

definition numberedSections :: "item list" where
  "numberedSections =
     [Bol, Rep Digit 1 None False, Rep (Lit (CHR ''.'')) 1 (Some 1) False,
      Rep White 1 None False, Rep Dot 1 None True, Eol]"

definition patterns :: "item list list" where
  "patterns =
     [markdownHeaders, underlinedHeaders (CHR ''=''), underlinedHeaders (CHR ''-''),
      numberedSections]"

text \<open>Decimal rendering of a number in a template string.\<close>

function showNat :: "nat \<Rightarrow> string" where
  "showNat n =
     (if n < 10 then [''0123456789'' ! n]
      else showNat (n div 10) @ [''0123456789'' ! (n mod 10)])"
  by pat_completeness auto
termination
  by (relation "measure (\<lambda>n. n)") auto

declare showNat.simps [simp del]

text \<open>\<open>extractTitle\<close>: \<open>fileName.replace(/\.[^/.]+$/, '').replace(/[-_]/g, ' ')\<close>.\<close>

definition stripExtension :: "string \<Rightarrow> string" where
  "stripExtension fileName =
     (let r = rev fileName;
          ext = takeWhile (\<lambda>c. c \<noteq> CHR ''.'' \<and> c \<noteq> CHR ''/'') r
      in if ext \<noteq> [] \<and> length ext < length r \<and> r ! length ext = CHR ''.''
         then rev (drop (Suc (length ext)) r)
         else fileName)"

definition extractTitle :: "string \<Rightarrow> string" where
  "extractTitle fileName =
     map (\<lambda>c. if c = CHR ''-'' \<or> c = CHR ''_'' then SP else c) (stripExtension fileName)"

record Section =
  sec_title :: string
  sec_content :: string
  sec_position :: nat

definition bestMatches :: "string \<Rightarrow> (nat \<times> string option) list" where
  "bestMatches content =
     fold (\<lambda>pattern best.
             (let matches = matchAllFrom pattern content 0
              in if length matches > length best then matches else best))
          patterns []"

definition extractSections :: "string \<Rightarrow> string \<Rightarrow> Section list" where
  "extractSections content fileName =
     (let best = bestMatches content
      in if length best = 0 then
           [\<lparr>sec_title = extractTitle fileName, sec_content = content, sec_position = 0\<rparr>]
         else
           map (\<lambda>i.
                  (let startIndex = fst (best ! i);
                       endIndex = (if i + 1 < length best then fst (best ! (i + 1))
                                   else length content)
                   in \<lparr>sec_title = (case snd (best ! i) of
                                       Some t \<Rightarrow> if t = [] then ''Section '' @ showNat (i + 1) else t
                                     | None \<Rightarrow> ''Section '' @ showNat (i + 1)),
                        sec_content = trim (slice content startIndex endIndex),
                        sec_position = i\<rparr>))
               [0..<length best])"

text \<open>\<open>getFileType\<close>: the extension from the last dot on, lower-cased, looked up in
  the type table.\<close>

definition toLowerCase :: "string \<Rightarrow> string" where
  "toLowerCase s =
     map (\<lambda>c. (let n = (of_char c :: nat)
                in if (65 \<le> n \<and> n \<le> 90) \<or> (192 \<le> n \<and> n \<le> 222 \<and> n \<noteq> 215)
                   then char_of (n + 32) else c)) s"

definition getFileExtension :: "string \<Rightarrow> string" where
  "getFileExtension fileName =
     (case lastIndexOf fileName ''.'' (length fileName) of
        Some lastDot \<Rightarrow> drop lastDot fileName
      | None \<Rightarrow> [])"

definition getFileType :: "string \<Rightarrow> string" where
  "getFileType fileName =
     (let extension = toLowerCase (getFileExtension fileName)
      in if extension = ''.txt'' then ''text''
         else if extension = ''.md'' then ''markdown''
         else if extension = ''.pdf'' then ''pdf''
         else if extension = ''.docx'' then ''docx''
         else ''unknown'')"

subsection \<open>Processing a file\<close>

text \<open>
  \<open>processFile\<close> draws the document id (uuid number 0) and the timestamp, normalises
  the content, splits it into sections and chunks the sections one after the other,
  passing the number of chunks made so far as the starting index.
\<close>

fun processSections ::
  "tokenizer \<Rightarrow> (nat \<Rightarrow> string) \<Rightarrow> (Section \<Rightarrow> ChunkMetadata) \<Rightarrow> Section list
     \<Rightarrow> DocumentChunk list \<Rightarrow> nat \<Rightarrow> DocumentChunk list" where
  "processSections tokenizer uuid baseMetadata [] chunks globalChunkIndex = chunks"
| "processSections tokenizer uuid baseMetadata (section # rest) chunks globalChunkIndex =
     (let sectionChunks =
            createTokenBasedChunks tokenizer uuid (sec_content section) (baseMetadata section)
              globalChunkIndex
      in processSections tokenizer uuid baseMetadata rest (chunks @ sectionChunks)
           (globalChunkIndex + length sectionChunks))"

definition sectionMetadata :: "(nat \<Rightarrow> string) \<Rightarrow> string \<Rightarrow> UploadedFile \<Rightarrow> Section \<Rightarrow> ChunkMetadata" where
  "sectionMetadata uuid now file section =
     \<lparr>md_source = file_name file,
      md_title = extractTitle (file_name file),
      md_section = Some (sec_title section),
      md_position = sec_position section,
      md_chunkIndex = 0,
      md_totalChunks = 0,
      md_documentId = uuid 0,
      md_timestamp = now,
      md_fileType = getFileType (file_name file),
      md_tokens = 0\<rparr>"

definition processFile ::
  "tokenizer \<Rightarrow> (nat \<Rightarrow> string) \<Rightarrow> string \<Rightarrow> UploadedFile \<Rightarrow> DocumentChunk list" where
  "processFile tokenizer uuid now file =
     (let content = cleanText (file_content file);
          sections = extractSections content (file_name file)
      in processSections tokenizer uuid (sectionMetadata uuid now file) sections [] 0)"

section \<open>Deduplication cache (documentCache.ts)\<close>

text \<open>
  The registry maps a content hash to its entry. The digest (SHA-256 of the crypto
  library) is a parameter \<open>sha\<close> of the model; times are milliseconds as
  \<open>Date.now()\<close> returns them.
\<close>

record CacheEntry =
  ce_hash :: string
  ce_filename :: string
  ce_timestamp :: int
  ce_chunks :: nat
  ce_tokens :: nat

record DocumentCache =
  documentHashes :: "string \<rightharpoonup> CacheEntry"
  chunkHashes :: "string set"

definition CACHE_EXPIRY_HOURS :: real where
  "CACHE_EXPIRY_HOURS = 24 * 7"

definition calculateContentHash :: "(string \<Rightarrow> string) \<Rightarrow> string \<Rightarrow> string" where
  "calculateContentHash sha content = sha (trim content)"

text \<open>\<open>isDocumentDuplicate\<close> returns \<open>isDuplicate\<close> with the existing entry and
  the registry afterwards: an entry found expired is deleted.\<close>

definition hoursSinceProcessed :: "int \<Rightarrow> int \<Rightarrow> real" where
  "hoursSinceProcessed now timestamp = real_of_int (now - timestamp) / (1000 * 60 * 60)"

definition isDocumentDuplicate ::
  "(string \<Rightarrow> string) \<Rightarrow> int \<Rightarrow> string \<Rightarrow> DocumentCache
     \<Rightarrow> (bool \<times> CacheEntry option) \<times> DocumentCache" where
  "isDocumentDuplicate sha now content cache =
     (let hash = calculateContentHash sha content
      in case documentHashes cache hash of
           Some existingEntry \<Rightarrow>
             if hoursSinceProcessed now (ce_timestamp existingEntry) < CACHE_EXPIRY_HOURS
             then ((True, Some existingEntry), cache)
             else ((False, None),
                   cache\<lparr>documentHashes := (documentHashes cache)(hash := None)\<rparr>)
         | None \<Rightarrow> ((False, None), cache))"

text \<open>\<open>file.contentHash || this.calculateContentHash(file.content)\<close>: an absent or
  empty \<open>contentHash\<close> is falsy.\<close>

definition fileHash :: "(string \<Rightarrow> string) \<Rightarrow> UploadedFile \<Rightarrow> string" where
  "fileHash sha file =
     (case file_contentHash file of
        Some h \<Rightarrow> if h = [] then calculateContentHash sha (file_content file) else h
      | None \<Rightarrow> calculateContentHash sha (file_content file))"

text \<open>
  The loop of \<open>filterDuplicateFiles\<close> with its accumulators \<open>uniqueFiles\<close>,
  \<open>duplicates\<close> and \<open>currentBatchHashes\<close>. A file whose hash is already in the
  batch set is passed over by \<open>continue\<close>: it goes into neither list.
\<close>

fun filterLoop ::
  "(string \<Rightarrow> string) \<Rightarrow> int \<Rightarrow> UploadedFile list
     \<Rightarrow> UploadedFile list \<Rightarrow> (UploadedFile \<times> CacheEntry) list \<Rightarrow> string set \<Rightarrow> DocumentCache
     \<Rightarrow> (UploadedFile list \<times> (UploadedFile \<times> CacheEntry) list) \<times> DocumentCache" where
  "filterLoop sha now [] uniqueFiles duplicates currentBatchHashes cache =
     ((uniqueFiles, duplicates), cache)"
| "filterLoop sha now (file # files) uniqueFiles duplicates currentBatchHashes cache =
     (let hash = fileHash sha file
      in if hash \<in> currentBatchHashes
         then filterLoop sha now files uniqueFiles duplicates currentBatchHashes cache
         else
           (let duplicateCheck = isDocumentDuplicate sha now (file_content file) cache
            in case fst duplicateCheck of
                 (True, Some existingEntry) \<Rightarrow>
                   filterLoop sha now files uniqueFiles (duplicates @ [(file, existingEntry)])
                     currentBatchHashes (snd duplicateCheck)
               | _ \<Rightarrow>
                   filterLoop sha now files
                     (uniqueFiles @ [file\<lparr>file_contentHash := Some hash\<rparr>]) duplicates
                     (insert hash currentBatchHashes) (snd duplicateCheck)))"

definition filterDuplicateFiles ::
  "(string \<Rightarrow> string) \<Rightarrow> int \<Rightarrow> UploadedFile list \<Rightarrow> DocumentCache
     \<Rightarrow> (UploadedFile list \<times> (UploadedFile \<times> CacheEntry) list) \<times> DocumentCache" where
  "filterDuplicateFiles sha now files cache = filterLoop sha now files [] [] {} cache"

definition registerProcessedDocument ::
  "(string \<Rightarrow> string) \<Rightarrow> int \<Rightarrow> UploadedFile \<Rightarrow> DocumentChunk list \<Rightarrow> DocumentCache
     \<Rightarrow> DocumentCache" where
  "registerProcessedDocument sha now file chunks cache =
     (let hash = fileHash sha file;
          totalTokens = sum_list (map (\<lambda>chunk. md_tokens (chunk_metadata chunk)) chunks);
          entry = \<lparr>ce_hash = hash, ce_filename = file_name file, ce_timestamp = now,
                   ce_chunks = length chunks, ce_tokens = totalTokens\<rparr>
      in cache\<lparr>documentHashes := (documentHashes cache)(hash \<mapsto> entry),
               chunkHashes := chunkHashes cache
                 \<union> set (map (\<lambda>chunk. calculateContentHash sha (chunk_content chunk)) chunks)\<rparr>)"

text \<open>The retention window in milliseconds.\<close>

definition retentionWindow :: int where
  "retentionWindow = 7 * 24 * 60 * 60 * 1000"

section \<open>Upload boundary (app/api/upload/route.ts)\<close>


section \<open>Retriever: MMR selection (embeddings.ts, retriever.ts)\<close>

subsection \<open>JavaScript numbers\<close>

text \<open>
  Scores, vector components and everything computed from them are JavaScript numbers,
  that is IEEE 754 double-precision values: \<open>NaN\<close>, the two infinities, or a finite
  value. An arithmetic operation on finite values returns the exact result rounded to
  the nearest double, ties to the even significand. Doubles with exponent \<open>e\<close> are the
  multiples of \<open>2 ^ (e - 52)\<close>; below \<open>2 ^ -1022\<close> they are the multiples of
  \<open>2 ^ -1074\<close>, so that a small enough result becomes zero; a result whose rounded
  magnitude reaches \<open>2 ^ 1024\<close> becomes an infinity. Operations on \<open>NaN\<close> and on the
  infinities follow the standard (\<open>0 / 0\<close>, \<open>0 * Infinity\<close>,
  \<open>Infinity - Infinity\<close> and \<open>Infinity / Infinity\<close> are \<open>NaN\<close>).

  The sign of a zero is not represented. It could only show in a division by zero, and
  the one division of the retriever has a product of two square roots as its divisor,
  which is never a negative zero; comparisons and \<open>Math.max\<close> do not tell the two
  zeros apart by value.
\<close>

datatype number = NaN | NegInf | Fin real | PosInf

definition roundHalfEven :: "real \<Rightarrow> int" where
  "roundHalfEven r =
     (let f = \<lfloor>r\<rfloor>; d = r - of_int f
      in if d < 1 / 2 then f else if d > 1 / 2 then f + 1 else if even f then f else f + 1)"

text \<open>The exponent of the doubles next to \<open>x\<close> (the least one in the subnormal
  range), the distance between them, and the one nearest to \<open>x\<close>.\<close>

definition exponentOf :: "real \<Rightarrow> int" where
  "exponentOf x = (if \<bar>x\<bar> < 2 powi (- 1022) then - 1022 else \<lfloor>log 2 \<bar>x\<bar>\<rfloor>)"

definition spacing :: "real \<Rightarrow> real" where
  "spacing x = 2 powi (exponentOf x - 52)"

definition nearest :: "real \<Rightarrow> real" where
  "nearest x = of_int (roundHalfEven (x / spacing x)) * spacing x"

definition round64 :: "real \<Rightarrow> number" where
  "round64 x =
     (let y = nearest x
      in if y \<ge> 2 ^ 1024 then PosInf else if y \<le> - (2 ^ 1024) then NegInf else Fin y)"

definition infinity :: "bool \<Rightarrow> number" where
  "infinity positive = (if positive then PosInf else NegInf)"

fun isPositive :: "number \<Rightarrow> bool" where
  "isPositive (Fin a) = (a > 0)"
| "isPositive PosInf = True"
| "isPositive _ = False"

fun numNeg :: "number \<Rightarrow> number" where
  "numNeg NaN = NaN"
| "numNeg NegInf = PosInf"
| "numNeg (Fin a) = Fin (- a)"
| "numNeg PosInf = NegInf"

text \<open>In the last two equations of \<open>numPlus\<close> one operand is an infinity and the other
  is finite or the same infinity.\<close>

fun numPlus :: "number \<Rightarrow> number \<Rightarrow> number" where
  "numPlus (Fin a) (Fin b) = round64 (a + b)"
| "numPlus NaN b = NaN"
| "numPlus a NaN = NaN"
| "numPlus PosInf NegInf = NaN"
| "numPlus NegInf PosInf = NaN"
| "numPlus (Fin a) b = b"
| "numPlus a b = a"

definition numMinus :: "number \<Rightarrow> number \<Rightarrow> number" where
  "numMinus a b = numPlus a (numNeg b)"

text \<open>In the last equation of \<open>numTimes\<close> at least one factor is an infinity.\<close>

fun numTimes :: "number \<Rightarrow> number \<Rightarrow> number" where
  "numTimes (Fin a) (Fin b) = round64 (a * b)"
| "numTimes NaN b = NaN"
| "numTimes a NaN = NaN"
| "numTimes a b =
     (if a = Fin 0 \<or> b = Fin 0 then NaN else infinity (isPositive a = isPositive b))"

text \<open>Division: a finite value by an infinity, an infinity by a finite value, and in
  the last equation an infinity by an infinity.\<close>

fun numDivide :: "number \<Rightarrow> number \<Rightarrow> number" where
  "numDivide (Fin a) (Fin b) =
     (if b = 0 then (if a = 0 then NaN else infinity (a > 0)) else round64 (a / b))"
| "numDivide NaN b = NaN"
| "numDivide a NaN = NaN"
| "numDivide (Fin a) b = Fin 0"
| "numDivide a (Fin b) = infinity (isPositive a = (b \<ge> 0))"
| "numDivide a b = NaN"

fun numSqrt :: "number \<Rightarrow> number" where
  "numSqrt (Fin a) = (if a < 0 then NaN else round64 (sqrt a))"
| "numSqrt PosInf = PosInf"
| "numSqrt _ = NaN"

text \<open>\<open>a > b\<close>: false whenever an operand is \<open>NaN\<close>.\<close>

fun greaterThan :: "number \<Rightarrow> number \<Rightarrow> bool" where
  "greaterThan (Fin a) (Fin b) = (a > b)"
| "greaterThan NaN b = False"
| "greaterThan a NaN = False"
| "greaterThan a NegInf = (a \<noteq> NegInf)"
| "greaterThan PosInf b = (b \<noteq> PosInf)"
| "greaterThan a b = False"

text \<open>\<open>Math.max(a, b)\<close>: \<open>NaN\<close> if an argument is \<open>NaN\<close>.\<close>

definition numMax :: "number \<Rightarrow> number \<Rightarrow> number" where
  "numMax a b = (if a = NaN \<or> b = NaN then NaN else if greaterThan b a then b else a)"

subsection \<open>Cosine similarity\<close>

text \<open>
  \<open>cosineSimilarity\<close> throws on different lengths. Its loop adds up \<open>dotProduct\<close>,
  \<open>norm1\<close> and \<open>norm2\<close> from left to right; the components of the vectors are
  doubles.
\<close>

fun similaritySums ::
  "vec \<Rightarrow> vec \<Rightarrow> number \<times> number \<times> number \<Rightarrow> number \<times> number \<times> number" where
  "similaritySums (x # xs) (y # ys) (dotProduct, norm1, norm2) =
     similaritySums xs ys
       (numPlus dotProduct (numTimes (Fin x) (Fin y)),
        numPlus norm1 (numTimes (Fin x) (Fin x)),
        numPlus norm2 (numTimes (Fin y) (Fin y)))"
| "similaritySums xs ys totals = totals"

definition cosineSimilarity :: "vec \<Rightarrow> vec \<Rightarrow> error + number" where
  "cosineSimilarity embedding1 embedding2 =
     (if length embedding1 \<noteq> length embedding2 then Inl DimensionMismatch
      else
        (case similaritySums embedding1 embedding2 (Fin 0, Fin 0, Fin 0) of
           (dotProduct, norm1, norm2) \<Rightarrow>
             Inr (numDivide dotProduct (numTimes (numSqrt norm1) (numSqrt norm2)))))"

subsection \<open>Selection\<close>

text \<open>
  The retriever uses the plain embedding service, whose \<open>generateEmbedding\<close> makes one
  attempt. The provider is modelled as a function of the text sent.
\<close>

definition generateEmbeddingPlain :: "(string \<Rightarrow> vec option) \<Rightarrow> string \<Rightarrow> error + vec" where
  "generateEmbeddingPlain embedText text =
     (case embedText (replaceNewlines text) of
        Some values \<Rightarrow> Inr values
      | None \<Rightarrow> Inl EmbeddingFailed)"

text \<open>The inner loop over the results selected so far.\<close>

fun maxSimilarityLoop ::
  "(string \<Rightarrow> vec option) \<Rightarrow> vec \<Rightarrow> RetrievalResult list \<Rightarrow> number \<Rightarrow> error + number" where
  "maxSimilarityLoop embedText candidateEmbedding [] maxSimilarity = Inr maxSimilarity"
| "maxSimilarityLoop embedText candidateEmbedding (selectedResult # rest) maxSimilarity =
     (case generateEmbeddingPlain embedText (chunk_content (rr_chunk selectedResult)) of
        Inl e \<Rightarrow> Inl e
      | Inr selectedEmbedding \<Rightarrow>
          (case cosineSimilarity candidateEmbedding selectedEmbedding of
             Inl e \<Rightarrow> Inl e
           | Inr similarity \<Rightarrow>
               maxSimilarityLoop embedText candidateEmbedding rest
                 (numMax maxSimilarity similarity)))"

definition diversityScore ::
  "(string \<Rightarrow> vec option) \<Rightarrow> RetrievalResult list \<Rightarrow> RetrievalResult \<Rightarrow> error + number" where
  "diversityScore embedText selected candidate =
     (if length selected > 0 then
        (case generateEmbeddingPlain embedText (chunk_content (rr_chunk candidate)) of
           Inl e \<Rightarrow> Inl e
         | Inr candidateEmbedding \<Rightarrow>
             (case maxSimilarityLoop embedText candidateEmbedding selected (Fin 0) of
                Inl e \<Rightarrow> Inl e
              | Inr maxSimilarity \<Rightarrow> Inr (numNeg maxSimilarity)))
      else Inr (Fin 0))"

text \<open>\<open>lambda * relevanceScore + (1 - lambda) * diversityScore\<close>.\<close>

definition mmrScore ::
  "(string \<Rightarrow> vec option) \<Rightarrow> real \<Rightarrow> RetrievalResult list \<Rightarrow> RetrievalResult \<Rightarrow> error + number" where
  "mmrScore embedText lambda selected candidate =
     (let relevanceScore = rr_score candidate
      in case diversityScore embedText selected candidate of
           Inl e \<Rightarrow> Inl e
         | Inr diversity \<Rightarrow>
             Inr (numPlus (numTimes (Fin lambda) (Fin relevanceScore))
                    (numTimes (numMinus (Fin 1) (Fin lambda)) diversity)))"

text \<open>The \<open>for\<close> loop over \<open>remaining\<close>: index \<open>i\<close>, best index and best score so
  far (\<open>-Infinity\<close> at the start). A candidate replaces the best one only with a
  strictly greater score.\<close>

fun scanCandidates ::
  "(string \<Rightarrow> vec option) \<Rightarrow> real \<Rightarrow> RetrievalResult list \<Rightarrow> RetrievalResult list
     \<Rightarrow> nat \<Rightarrow> nat \<Rightarrow> number \<Rightarrow> error + nat" where
  "scanCandidates embedText lambda selected [] i bestIndex bestScore = Inr bestIndex"
| "scanCandidates embedText lambda selected (candidate # rest) i bestIndex bestScore =
     (case mmrScore embedText lambda selected candidate of
        Inl e \<Rightarrow> Inl e
      | Inr score \<Rightarrow>
          if greaterThan score bestScore
          then scanCandidates embedText lambda selected rest (i + 1) i score
          else scanCandidates embedText lambda selected rest (i + 1) bestIndex bestScore)"

lemma scanCandidates_index:
  "scanCandidates embedText lambda selected remaining i bestIndex bestScore = Inr k
     \<Longrightarrow> k = bestIndex \<or> (i \<le> k \<and> k < i + length remaining)"
proof (induction remaining arbitrary: i bestIndex bestScore)
  case Nil
  then show ?case by simp
next
  case (Cons candidate rest)
  then show ?case
    by (fastforce split: sum.splits if_splits)
qed

text \<open>The \<open>while\<close> loop: the best remaining candidate is appended to \<open>selected\<close> and
  removed from \<open>remaining\<close> (\<open>splice(bestIndex, 1)\<close>).\<close>

function mmrLoop ::
  "(string \<Rightarrow> vec option) \<Rightarrow> real \<Rightarrow> nat \<Rightarrow> RetrievalResult list \<Rightarrow> RetrievalResult list
     \<Rightarrow> error + RetrievalResult list" where
  "mmrLoop embedText lambda topK selected remaining =
     (if length selected < topK \<and> length remaining > 0 then
        (case scanCandidates embedText lambda selected remaining 0 0 NegInf of
           Inl e \<Rightarrow> Inl e
         | Inr bestIndex \<Rightarrow>
             mmrLoop embedText lambda topK (selected @ [remaining ! bestIndex])
               (take bestIndex remaining @ drop (Suc bestIndex) remaining))
      else Inr selected)"
  by pat_completeness auto
termination
proof (relation "measure (\<lambda>(embedText, lambda, topK, selected, remaining). length remaining)",
       goal_cases)
  case 1
  show ?case by simp
next
  case (2 embedText lambda topK selected remaining bestIndex)
  then have "bestIndex < length remaining"
    using scanCandidates_index by fastforce
  then show ?case by auto
qed

declare mmrLoop.simps [simp del]

text \<open>
  \<open>retrieveWithMMR\<close>. The underlying \<open>retrieve\<close> (query embedding, vector search,
  conversion of the matches) is a parameter returning the candidates or failing. Every
  exception inside is rethrown as \<open>MMR retrieval failed\<close>.
\<close>

definition retrieveWithMMR ::
  "(string \<Rightarrow> nat \<Rightarrow> error + RetrievalResult list) \<Rightarrow> (string \<Rightarrow> vec option)
     \<Rightarrow> string \<Rightarrow> nat \<Rightarrow> real \<Rightarrow> error + RetrievalResult list" where
  "retrieveWithMMR retrieve embedText query topK lambda =
     (let candidateCount = min (topK * 3) 100
      in case retrieve query candidateCount of
           Inl e \<Rightarrow> Inl MMRRetrievalFailed
         | Inr candidates \<Rightarrow>
             if length candidates = 0 then Inr []
             else
               (case generateEmbeddingPlain embedText query of
                  Inl e \<Rightarrow> Inl MMRRetrievalFailed
                | Inr queryEmbedding \<Rightarrow>
                    (case mmrLoop embedText lambda topK [] candidates of
                       Inl e \<Rightarrow> Inl MMRRetrievalFailed
                     | Inr selected \<Rightarrow> Inr selected)))"

section \<open>Reranker adapter (reranker.ts)\<close>

definition rerankerTopN :: nat where
  "rerankerTopN = 1"

text \<open>
  The external reranking call takes the query, the documents and \<open>topN\<close> and returns
  pairs of a document index and a relevance score, or throws.
\<close>

type_synonym rerankCall = "string \<Rightarrow> string list \<Rightarrow> nat \<Rightarrow> error + (nat \<times> real) list"

text \<open>\<open>topN || this.topN\<close>: an omitted \<open>topN\<close> and a \<open>topN\<close> of 0 are falsy and give
  the configured default.\<close>

definition topNOrDefault :: "nat option \<Rightarrow> nat" where
  "topNOrDefault topN =
     (case topN of Some n \<Rightarrow> if n = 0 then rerankerTopN else n | None \<Rightarrow> rerankerTopN)"

definition rerankedKey :: "RetrievalResult \<Rightarrow> real" where
  "rerankedKey r = (case rr_rerankedScore r of Some s \<Rightarrow> s | None \<Rightarrow> 0)"

text \<open>
  \<open>rerank\<close>. When the call throws, the \<open>catch\<close> block returns
  \<open>results.slice(0, topN || this.topN)\<close>. On success every returned pair is mapped to
  the result at that index with both scores overwritten, and the list is sorted by the
  new score, highest first (the sort is stable). An index outside the documents sent
  would give an object without a chunk, which fails as soon as it is read; the model
  returns \<open>MalformedRerankResult\<close> for such a response.
\<close>

definition rerank ::
  "rerankCall \<Rightarrow> string \<Rightarrow> RetrievalResult list \<Rightarrow> nat option \<Rightarrow> error + RetrievalResult list" where
  "rerank cohere query results topN =
     (if length results = 0 then Inr []
      else
        (let rerankTopN = topNOrDefault topN;
             maxInputResults = min 50 (length results);
             limitedResults = take maxInputResults results;
             documents = map (\<lambda>result. chunk_content (rr_chunk result)) limitedResults
         in case cohere query documents (min rerankTopN (length documents)) of
              Inl e \<Rightarrow> Inr (take (topNOrDefault topN) results)
            | Inr response \<Rightarrow>
                if list_all (\<lambda>(index, relevanceScore). index < length limitedResults) response
                then Inr (sort_key (\<lambda>r. - rerankedKey r)
                            (map (\<lambda>(index, relevanceScore).
                                    (limitedResults ! index)
                                      \<lparr>rr_score := relevanceScore,
                                       rr_rerankedScore := Some relevanceScore\<rparr>)
                                 response))
                else Inl MalformedRerankResult))"

section \<open>Answer synthesizer (llm.ts)\<close>

record Citation =
  cit_id :: nat
  cit_text :: string
  cit_source :: string
  cit_section :: "string option"
  cit_position :: nat

record SourceDocument =
  sd_id :: string
  sd_title :: string
  sd_source :: string
  sd_relevantChunks :: "nat list"
  sd_fileType :: string

text \<open>
  The source map is a JavaScript \<open>Map\<close> keyed by \<open>documentId\<close>; its values are listed
  in insertion order, so it is modelled as an association list. \<open>addToSourceMap\<close> is
  the body \<open>if (!sourceMap.has(key)) sourceMap.set(key, ...); sourceMap.get(key).relevantChunks.push(id)\<close>.
\<close>

fun addToSourceMap ::
  "ChunkMetadata \<Rightarrow> nat \<Rightarrow> (string \<times> SourceDocument) list \<Rightarrow> (string \<times> SourceDocument) list" where
  "addToSourceMap metadata citationId [] =
     [(md_documentId metadata,
       \<lparr>sd_id = md_documentId metadata, sd_title = md_title metadata,
        sd_source = md_source metadata, sd_relevantChunks = [citationId],
        sd_fileType = md_fileType metadata\<rparr>)]"
| "addToSourceMap metadata citationId ((key, doc) # rest) =
     (if key = md_documentId metadata
      then (key, doc\<lparr>sd_relevantChunks := sd_relevantChunks doc @ [citationId]\<rparr>) # rest
      else (key, doc) # addToSourceMap metadata citationId rest)"

definition citationOf :: "nat \<Rightarrow> RetrievalResult \<Rightarrow> Citation" where
  "citationOf citationId result =
     \<lparr>cit_id = citationId,
      cit_text = chunk_content (rr_chunk result),
      cit_source = md_source (chunk_metadata (rr_chunk result)),
      cit_section = md_section (chunk_metadata (rr_chunk result)),
      cit_position = md_position (chunk_metadata (rr_chunk result))\<rparr>"

definition contextEntry :: "nat \<Rightarrow> RetrievalResult \<Rightarrow> string" where
  "contextEntry citationId result =
     ''['' @ showNat citationId @ ''] '' @ chunk_content (rr_chunk result) @ [NL, NL]"

text \<open>The \<open>forEach\<close> over the results, \<open>index\<close> counting from 0.\<close>

fun citationLoop ::
  "RetrievalResult list \<Rightarrow> nat \<Rightarrow> Citation list \<Rightarrow> string \<Rightarrow> (string \<times> SourceDocument) list
     \<Rightarrow> Citation list \<times> string \<times> (string \<times> SourceDocument) list" where
  "citationLoop [] index citations contextText sourceMap = (citations, contextText, sourceMap)"
| "citationLoop (result # rest) index citations contextText sourceMap =
     (let citationId = index + 1
      in citationLoop rest (index + 1)
           (citations @ [citationOf citationId result])
           (contextText @ contextEntry citationId result)
           (addToSourceMap (chunk_metadata (rr_chunk result)) citationId sourceMap))"

definition prepareContextWithCitations ::
  "RetrievalResult list \<Rightarrow> string \<times> Citation list \<times> SourceDocument list" where
  "prepareContextWithCitations retrievalResults =
     (case citationLoop retrievalResults 0 [] (''Context information:'' @ [NL, NL]) [] of
        (citations, contextText, sourceMap) \<Rightarrow> (contextText, citations, map snd sourceMap))"

definition createPrompt :: "string \<Rightarrow> string \<Rightarrow> string" where
  "createPrompt query contextText =
     contextText @ [NL, NL] @ ''Question: '' @ query @ [NL, NL]
     @ ''Please answer the question based on the provided context. Include inline citations using the format [1], [2], etc. to reference specific pieces of information from the context. If you cannot answer the question based on the provided context, please say so clearly.''
     @ [NL, NL] @ ''Answer:''"

definition systemPrompt :: string where
  "systemPrompt =
     ''You are a helpful AI assistant that answers questions based on the provided context. '' @ [NL]
     @ ''Always include inline citations [1], [2], etc. for each piece of information you reference from the context.'' @ [NL]
     @ ''If you cannot answer based on the provided context, say so clearly.'' @ [NL]
     @ ''Be concise but comprehensive in your responses.'' @ [NL]
     @ ''Provide accurate, well-structured answers with proper citations.''"

text \<open>
  The generation service takes the system and the user prompt and returns a completion
  or fails (an error or the 30 second timeout). Time and cost figures of the metrics
  are not modelled; the token counts are.
\<close>

record Completion =
  comp_content :: "string option"
  comp_promptTokens :: nat
  comp_completionTokens :: nat
  comp_totalTokens :: nat

type_synonym generationCall = "string \<Rightarrow> string \<Rightarrow> error + Completion"

record QueryResult =
  qr_query :: string
  qr_answer :: string
  qr_citations :: "Citation list"
  qr_sources :: "SourceDocument list"
  qr_retrievalResults :: "RetrievalResult list"
  qr_tokensUsed :: "nat \<times> nat \<times> nat"

definition insufficientInformation :: string where
  "insufficientInformation =
     ''I don'' @ [CHR 0x27] @ ''t have enough relevant information in my knowledge base to answer your question. Please try uploading relevant documents or rephrasing your question.''"

definition createNoAnswerResponse :: "string \<Rightarrow> QueryResult" where
  "createNoAnswerResponse query =
     \<lparr>qr_query = query, qr_answer = insufficientInformation, qr_citations = [],
      qr_sources = [], qr_retrievalResults = [], qr_tokensUsed = (0, 0, 0)\<rparr>"

text \<open>
  \<open>generateAnswer\<close> returns its result, or the error it throws, together with the list
  of calls made to the generation service (the prompts sent).
\<close>

definition generateAnswer ::
  "generationCall \<Rightarrow> string \<Rightarrow> RetrievalResult list \<Rightarrow> bool
     \<Rightarrow> (error + QueryResult) \<times> (string \<times> string) list" where
  "generateAnswer llm query retrievalResults includeMetrics =
     (if length retrievalResults = 0 then (Inr (createNoAnswerResponse query), [])
      else
        (case prepareContextWithCitations retrievalResults of
           (contextText, citations, sources) \<Rightarrow>
             (let userPrompt = createPrompt query contextText
              in case llm systemPrompt userPrompt of
                   Inl e \<Rightarrow> (Inl GenerationFailed, [(systemPrompt, userPrompt)])
                 | Inr completion \<Rightarrow>
                     (Inr \<lparr>qr_query = query,
                           qr_answer =
                             (case comp_content completion of
                                Some a \<Rightarrow>
                                  if a = [] then ''I apologize, but I could not generate a response.''
                                  else a
                              | None \<Rightarrow> ''I apologize, but I could not generate a response.''),
                           qr_citations = citations,
                           qr_sources = sources,
                           qr_retrievalResults = retrievalResults,
                           qr_tokensUsed =
                             (if includeMetrics
                              then (comp_promptTokens completion, comp_completionTokens completion,
                                    comp_totalTokens completion)
                              else (0, 0, 0))\<rparr>,
                      [(systemPrompt, userPrompt)]))))"

section \<open>Query pipeline (ragService.ts)\<close>

record QueryOptions =
  opt_useMMR :: bool
  opt_useReranking :: bool
  opt_topK :: nat
  opt_rerankedK :: nat
  opt_includeMetrics :: bool

definition diversityLambda :: real where
  "diversityLambda = 0.7"

text \<open>The external collaborators of one query.\<close>

record Services =
  svc_embedContent :: embedContent
  svc_retrieve :: "string \<Rightarrow> nat \<Rightarrow> error + RetrievalResult list"
  svc_embedText :: "string \<Rightarrow> vec option"
  svc_rerank :: rerankCall
  svc_llm :: generationCall

text \<open>
  Steps 1 to 3 of \<open>query\<close>: the query embedding, retrieval (MMR or plain) and
  reranking, giving \<open>finalResults\<close> or the exception that sends \<open>query\<close> to its
  \<open>catch\<close> block.
\<close>

definition finalResults ::
  "Services \<Rightarrow> string \<Rightarrow> QueryOptions \<Rightarrow> error + RetrievalResult list" where
  "finalResults svc question options =
     (case generateEmbedding (svc_embedContent svc) question 0 of
        Inl e \<Rightarrow> Inl e
      | Inr queryEmbedding \<Rightarrow>
          (case (if opt_useMMR options
                 then retrieveWithMMR (svc_retrieve svc) (svc_embedText svc) question
                        (opt_topK options) diversityLambda
                 else svc_retrieve svc question (opt_topK options)) of
             Inl e \<Rightarrow> Inl e
           | Inr retrievalResults \<Rightarrow>
               if opt_useReranking options \<and> length retrievalResults > 0
               then rerank (svc_rerank svc) question retrievalResults
                      (Some (opt_rerankedK options))
               else if \<not> opt_useReranking options
                        \<and> length retrievalResults > opt_rerankedK options
               then Inr (take (opt_rerankedK options) retrievalResults)
               else Inr retrievalResults))"

definition errorResponse :: "string \<Rightarrow> QueryResult" where
  "errorResponse question =
     \<lparr>qr_query = question,
      qr_answer = ''I apologize, but I encountered an error while processing your query. Please try again.'',
      qr_citations = [], qr_sources = [], qr_retrievalResults = [],
      qr_tokensUsed = (0, 0, 0)\<rparr>"

text \<open>\<open>query\<close>: its result and the calls made to the generation service.\<close>

definition query ::
  "Services \<Rightarrow> string \<Rightarrow> QueryOptions \<Rightarrow> QueryResult \<times> (string \<times> string) list" where
  "query svc question options =
     (case finalResults svc question options of
        Inl e \<Rightarrow> (errorResponse question, [])
      | Inr final \<Rightarrow>
          if length final = 0 then
            (\<lparr>qr_query = question, qr_answer = insufficientInformation, qr_citations = [],
              qr_sources = [], qr_retrievalResults = [], qr_tokensUsed = (0, 0, 0)\<rparr>, [])
          else
            (case generateAnswer (svc_llm svc) question final (opt_includeMetrics options) of
               (Inl e, calls) \<Rightarrow> (errorResponse question, calls)
             | (Inr result, calls) \<Rightarrow> (result, calls)))"

section \<open>Job orchestrator (backgroundProcessing.ts)\<close>

datatype JobStatus =
  PENDING | UPLOADING | EXTRACTING | CHUNKING | EMBEDDING | INDEXING | COMPLETE | FAILED | CANCELLED

text \<open>A job as far as the queue and the state machine read and write it; the message
  text, the counters and the result are left out.\<close>

record ProcessingJob =
  job_id :: nat
  job_files :: "UploadedFile list"
  job_status :: JobStatus
  job_progress :: nat
  job_startTime :: int
  job_endTime :: "int option"
  job_error :: "string option"

text \<open>\<open>processJob\<close> is an asynchronous function: between two \<open>await\<close>s it runs
  without interruption. A started job is suspended at one of these points.\<close>

datatype stage = AwaitInit | AwaitChunks | AwaitEmbeddings | AwaitIndexing

text \<open>
  The service's fields, and two things the runtime holds: \<open>running\<close>, the suspended
  \<open>processJob\<close> calls with the point each waits at, and \<open>stageLog\<close>, the record of
  every processing stage entered (job id and the status set on entry). Job ids are
  uuids; the model draws them from a counter, so every new id is fresh. The job map
  keeps insertion order.
\<close>

record Orchestrator =
  jobs :: "(nat \<times> ProcessingJob) list"
  jobQueue :: "nat list"
  isProcessing :: bool
  activeJobs :: nat
  nextId :: nat
  running :: "(nat \<times> stage) list"
  stageLog :: "(nat \<times> JobStatus) list"

definition maxConcurrentJobs :: nat where
  "maxConcurrentJobs = 2"

definition MAX_JOBS_HISTORY :: nat where
  "MAX_JOBS_HISTORY = 100"

definition initialOrchestrator :: Orchestrator where
  "initialOrchestrator =
     \<lparr>jobs = [], jobQueue = [], isProcessing = False, activeJobs = 0, nextId = 0,
      running = [], stageLog = []\<rparr>"

definition lookupJob :: "Orchestrator \<Rightarrow> nat \<Rightarrow> ProcessingJob option" where
  "lookupJob s jobId = map_of (jobs s) jobId"

text \<open>A write to the job object with the given id.\<close>

definition updateJob :: "nat \<Rightarrow> (ProcessingJob \<Rightarrow> ProcessingJob) \<Rightarrow> Orchestrator \<Rightarrow> Orchestrator" where
  "updateJob jobId f s =
     s\<lparr>jobs := map (\<lambda>entry. if fst entry = jobId then (fst entry, f (snd entry)) else entry)
                   (jobs s)\<rparr>"

text \<open>Entering a processing stage: status and progress are set and the stage is
  recorded.\<close>

definition enterStage :: "nat \<Rightarrow> JobStatus \<Rightarrow> nat \<Rightarrow> Orchestrator \<Rightarrow> Orchestrator" where
  "enterStage jobId status progress s =
     (updateJob jobId (\<lambda>job. job\<lparr>job_status := status, job_progress := progress\<rparr>) s)
       \<lparr>stageLog := stageLog s @ [(jobId, status)]\<rparr>"

text \<open>
  \<open>processQueue\<close> up to the first \<open>await\<close> inside \<open>processJob\<close>: the head of the
  queue is taken, and if the job exists it is started, which sets \<open>UPLOADING\<close>.
\<close>

definition processQueue :: "Orchestrator \<Rightarrow> Orchestrator" where
  "processQueue s =
     (if isProcessing s \<or> activeJobs s \<ge> maxConcurrentJobs then s
      else
        (case jobQueue s of
           [] \<Rightarrow> s
         | jobId # rest \<Rightarrow>
             (let s1 = s\<lparr>jobQueue := rest\<rparr>
              in case lookupJob s1 jobId of
                   None \<Rightarrow> s1
                 | Some job \<Rightarrow>
                     enterStage jobId UPLOADING 5
                       (s1\<lparr>activeJobs := activeJobs s1 + 1, isProcessing := True,
                           running := running s1 @ [(jobId, AwaitInit)]\<rparr>))))"

definition createJob :: "UploadedFile list \<Rightarrow> int \<Rightarrow> Orchestrator \<Rightarrow> nat \<times> Orchestrator" where
  "createJob files now s =
     (let jobId = nextId s;
          job = \<lparr>job_id = jobId, job_files = files, job_status = PENDING, job_progress = 0,
                 job_startTime = now, job_endTime = None, job_error = None\<rparr>
      in (jobId,
          processQueue
            (s\<lparr>jobs := jobs s @ [(jobId, job)], jobQueue := jobQueue s @ [jobId],
               nextId := nextId s + 1\<rparr>)))"

text \<open>\<open>cancelJob\<close>: \<open>indexOf\<close> and \<open>splice\<close> remove the first occurrence of the id
  from the queue.\<close>

definition cancelJob :: "nat \<Rightarrow> int \<Rightarrow> Orchestrator \<Rightarrow> bool \<times> Orchestrator" where
  "cancelJob jobId now s =
     (case lookupJob s jobId of
        None \<Rightarrow> (False, s)
      | Some job \<Rightarrow>
          if job_status job = COMPLETE \<or> job_status job = FAILED then (False, s)
          else
            (True,
             (updateJob jobId
                (\<lambda>job. job\<lparr>job_status := CANCELLED, job_endTime := Some now, job_progress := 0\<rparr>)
                s)
               \<lparr>jobQueue := remove1 jobId (jobQueue s)\<rparr>))"

text \<open>The \<open>finally\<close> block of \<open>processQueue\<close>. The timer it may set calls
  \<open>processQueue\<close> later, which is an event of its own below.\<close>

definition finishRun :: "nat \<Rightarrow> Orchestrator \<Rightarrow> Orchestrator" where
  "finishRun jobId s =
     s\<lparr>running := filter (\<lambda>entry. fst entry \<noteq> jobId) (running s),
       activeJobs := activeJobs s - 1, isProcessing := False\<rparr>"

definition failJob :: "nat \<Rightarrow> string \<Rightarrow> int \<Rightarrow> Orchestrator \<Rightarrow> Orchestrator" where
  "failJob jobId message now s =
     finishRun jobId
       (updateJob jobId
          (\<lambda>job. job\<lparr>job_status := FAILED, job_error := Some message, job_endTime := Some now\<rparr>)
          s)"

definition completeJob :: "nat \<Rightarrow> int \<Rightarrow> Orchestrator \<Rightarrow> Orchestrator" where
  "completeJob jobId now s =
     finishRun jobId
       (updateJob jobId
          (\<lambda>job. job\<lparr>job_status := COMPLETE, job_progress := 100, job_endTime := Some now\<rparr>)
          s)"

definition setStage :: "nat \<Rightarrow> stage \<Rightarrow> Orchestrator \<Rightarrow> Orchestrator" where
  "setStage jobId st s =
     s\<lparr>running := map (\<lambda>entry. if fst entry = jobId then (jobId, st) else entry) (running s)\<rparr>"

text \<open>
  The awaited operation of a suspended job settles: it resolves or it throws. The work
  of the stages themselves is not repeated here; where \<open>processJob\<close> branches on a
  stage's result (no unique files after deduplication) the result comes with the event.
\<close>

datatype outcome = Resolved | Rejected string

definition resume :: "nat \<Rightarrow> outcome \<Rightarrow> bool \<Rightarrow> int \<Rightarrow> Orchestrator \<Rightarrow> Orchestrator" where
  "resume jobId result noUniqueFiles now s =
     (case map_of (running s) jobId of
        None \<Rightarrow> s
      | Some st \<Rightarrow>
          (case result of
             Rejected message \<Rightarrow> failJob jobId message now s
           | Resolved \<Rightarrow>
               (case st of
                  AwaitInit \<Rightarrow>
                    (let s1 = enterStage jobId EXTRACTING 10 s
                     in if noUniqueFiles then completeJob jobId now s1
                        else setStage jobId AwaitChunks (enterStage jobId CHUNKING 20 s1))
                | AwaitChunks \<Rightarrow> setStage jobId AwaitEmbeddings (enterStage jobId EMBEDDING 40 s)
                | AwaitEmbeddings \<Rightarrow> setStage jobId AwaitIndexing (enterStage jobId INDEXING 70 s)
                | AwaitIndexing \<Rightarrow> completeJob jobId now s)))"

text \<open>\<open>cleanupOldJobs\<close>: finished jobs older than 24 hours are deleted, then the
  oldest jobs beyond the history limit.\<close>

definition deleteJobs :: "nat list \<Rightarrow> Orchestrator \<Rightarrow> Orchestrator" where
  "deleteJobs ids s = s\<lparr>jobs := filter (\<lambda>entry. fst entry \<notin> set ids) (jobs s)\<rparr>"

definition cleanupOldJobs :: "int \<Rightarrow> Orchestrator \<Rightarrow> Orchestrator" where
  "cleanupOldJobs now s =
     (let maxAge = 24 * 60 * 60 * 1000;
          expired = map fst
            (filter (\<lambda>entry. (job_status (snd entry) = COMPLETE \<or> job_status (snd entry) = FAILED)
                               \<and> now - job_startTime (snd entry) > maxAge)
                    (jobs s));
          s1 = deleteJobs expired s
      in if length (jobs s1) > MAX_JOBS_HISTORY then
           (let sortedJobs = sort_key (\<lambda>entry. job_startTime (snd entry)) (jobs s1);
                toRemove = take (length sortedJobs - MAX_JOBS_HISTORY) sortedJobs
            in deleteJobs (map fst toRemove) s1)
         else s1)"

text \<open>Everything that can happen to the service, and a run of such events.\<close>

datatype event =
  CreateJob "UploadedFile list" int
  | CancelJob nat int
  | ProcessQueue
  | Resume nat outcome bool int
  | CleanupOldJobs int

fun step :: "event \<Rightarrow> Orchestrator \<Rightarrow> Orchestrator" where
  "step (CreateJob files now) s = snd (createJob files now s)"
| "step (CancelJob jobId now) s = snd (cancelJob jobId now s)"
| "step ProcessQueue s = processQueue s"
| "step (Resume jobId result noUniqueFiles now) s = resume jobId result noUniqueFiles now s"
| "step (CleanupOldJobs now) s = cleanupOldJobs now s"

definition run :: "event list \<Rightarrow> Orchestrator \<Rightarrow> Orchestrator" where
  "run events s = fold step events s"

definition stagesOf :: "nat \<Rightarrow> Orchestrator \<Rightarrow> JobStatus list" where
  "stagesOf jobId s = map snd (filter (\<lambda>entry. fst entry = jobId) (stageLog s))"

section \<open>Example inputs\<close>

text \<open>A chunk with the given content, as the chunker would hand it to the embedding
  stage (the metadata plays no role there).\<close>

definition exampleChunk :: "string \<Rightarrow> DocumentChunk" where
  "exampleChunk text =
     \<lparr>chunk_id = ''chunk-'' @ text, chunk_content = text,
      chunk_metadata =
        \<lparr>md_source = ''notes.txt'', md_title = ''notes'', md_section = None, md_position = 0,
         md_chunkIndex = 0, md_totalChunks = 0, md_documentId = ''doc'', md_timestamp = [],
         md_fileType = ''text'', md_tokens = 0\<rparr>,
      chunk_embedding = None\<rparr>"

text \<open>A provider that fails on every attempt for the item with index 1 and otherwise
  returns a one-dimensional vector holding the length of the text.\<close>

definition failsForSecondItem :: "nat \<Rightarrow> embedContent" where
  "failsForSecondItem index = (\<lambda>attempt text. if index = 1 then None else Some [real (length text)])"

text \<open>A collision-free stand-in for the digest: the text itself.\<close>

definition plainDigest :: "string \<Rightarrow> string" where
  "plainDigest text = text"

definition emptyCache :: DocumentCache where
  "emptyCache = \<lparr>documentHashes = Map.empty, chunkHashes = {}\<rparr>"

definition exampleFile :: "string \<Rightarrow> string \<Rightarrow> UploadedFile" where
  "exampleFile name text =
     \<lparr>file_name = name, file_size = length text, file_type = ''text/plain'',
      file_content = text, file_lastModified = 0, file_contentHash = None\<rparr>"

section \<open>Verified claims\<close>

subsection \<open>Embedding of chunks\<close>

text \<open>
  Claim C1. When embedding fails for some items of a batch, \<open>generateChunkEmbeddings\<close>
  should return exactly the chunks whose own embedding succeeded, each with the vector
  made from its own content, and report the failed indices. The code does not do that:
  for three chunks \<open>a\<close>, \<open>bb\<close>, \<open>ccc\<close> with the second embedding failing,
  \<open>generateEmbeddings\<close> logs the failed index 1 and returns the two vectors that
  succeeded, but \<open>generateChunkEmbeddings\<close> gives them to the first two chunks: the
  failed chunk \<open>bb\<close> is returned with the vector of \<open>ccc\<close>, the chunk \<open>ccc\<close> is
  dropped, and the skip warning names index 2.
\<close>

theorem C1_failed_chunk_gets_foreign_vector:
  "generateChunkEmbeddings failsForSecondItem
     [exampleChunk ''a'', exampleChunk ''bb'', exampleChunk ''ccc'']
   = ([(exampleChunk ''a'')\<lparr>chunk_embedding := Some [1]\<rparr>,
       (exampleChunk ''bb'')\<lparr>chunk_embedding := Some [3]\<rparr>], [2])
   \<and> generateEmbeddings failsForSecondItem [''a'', ''bb'', ''ccc''] = ([[1], [3]], [1])"
  by (simp add: generateChunkEmbeddings_def generateEmbeddings_def exampleChunk_def
        failsForSecondItem_def processBatch_def storeResult_def slice_def batchSize_def
        parallelBatches_def maxRetries_def replaceNewlines_def NL_def SP_def
        List.map_filter_simps Let_def)

subsection \<open>Deduplication\<close>

lemma filterDuplicateFiles_pair:
  assumes "file_content f2 = file_content f1"
    and "documentHashes cache (calculateContentHash sha (file_content f1)) = None"
    and "fileHash sha f2 = fileHash sha f1"
  shows "filterDuplicateFiles sha now [f1, f2] cache
           = (([f1\<lparr>file_contentHash := Some (fileHash sha f1)\<rparr>], []), cache)"
  using assms by (simp add: filterDuplicateFiles_def isDocumentDuplicate_def Let_def)

text \<open>
  Claim C3, as stated: two files with identical content and no registry entry give one
  entry in the unique list and one in the duplicates list. It fails: the second file
  is passed over and the duplicates list stays empty.
\<close>

theorem C3_counterexample:
  "fst (filterDuplicateFiles plainDigest 0
          [exampleFile ''a.txt'' ''same text'', exampleFile ''b.txt'' ''same text''] emptyCache)
   = ([(exampleFile ''a.txt'' ''same text'')\<lparr>file_contentHash := Some ''same text''\<rparr>], [])"
  by (simp add: filterDuplicateFiles_def isDocumentDuplicate_def Let_def exampleFile_def
        emptyCache_def fileHash_def calculateContentHash_def plainDigest_def trim_def
        isWhiteSpace_def)

text \<open>
  Claim C3, amended. For a batch of two files with identical content, no registry entry
  for that content and the same deduplication key (no preset \<open>contentHash\<close>, or the
  same one), \<open>filterDuplicateFiles\<close> returns exactly one entry in the unique list, the
  first file stamped with its hash, and no entry in the duplicates list; the registry
  is unchanged.
\<close>

theorem C3_second_copy_dropped:
  assumes "file_content f2 = file_content f1"
    and "documentHashes cache (calculateContentHash sha (file_content f1)) = None"
    and "fileHash sha f2 = fileHash sha f1"
  shows "filterDuplicateFiles sha now [f1, f2] cache
           = (([f1\<lparr>file_contentHash := Some (fileHash sha f1)\<rparr>], []), cache)"
  using assms by (rule filterDuplicateFiles_pair)

theorem C3_second_copy_dropped_witness:
  "file_content (exampleFile ''b.txt'' ''same text'') = file_content (exampleFile ''a.txt'' ''same text'')
   \<and> documentHashes emptyCache
        (calculateContentHash plainDigest (file_content (exampleFile ''a.txt'' ''same text''))) = None
   \<and> fileHash plainDigest (exampleFile ''b.txt'' ''same text'')
        = fileHash plainDigest (exampleFile ''a.txt'' ''same text'')
   \<and> filterDuplicateFiles plainDigest 0
        [exampleFile ''a.txt'' ''same text'', exampleFile ''b.txt'' ''same text''] emptyCache
      = (([(exampleFile ''a.txt'' ''same text'')
             \<lparr>file_contentHash :=
                Some (fileHash plainDigest (exampleFile ''a.txt'' ''same text''))\<rparr>], []),
         emptyCache)"
proof -
  have a: "file_content (exampleFile ''b.txt'' ''same text'')
             = file_content (exampleFile ''a.txt'' ''same text'')"
    by (simp add: exampleFile_def)
  have b: "documentHashes emptyCache
             (calculateContentHash plainDigest (file_content (exampleFile ''a.txt'' ''same text'')))
           = None"
    by (simp add: emptyCache_def)
  have c: "fileHash plainDigest (exampleFile ''b.txt'' ''same text'')
             = fileHash plainDigest (exampleFile ''a.txt'' ''same text'')"
    by (simp add: fileHash_def exampleFile_def)
  show ?thesis
    using a b c C3_second_copy_dropped [OF a b c, of 0] by simp
qed

lemma hoursSinceProcessed_window:
  "(hoursSinceProcessed t t0 < CACHE_EXPIRY_HOURS) = (t - t0 < retentionWindow)"
proof -
  have "(real_of_int (t - t0) / (1000 * 60 * 60) < CACHE_EXPIRY_HOURS)
          = (real_of_int (t - t0) < real_of_int retentionWindow)"
    by (simp add: CACHE_EXPIRY_HOURS_def retentionWindow_def divide_less_eq)
  then show ?thesis
    unfolding hoursSinceProcessed_def by (simp only: of_int_less_iff)
qed

text \<open>
  When the key a file is registered under is the hash of its trimmed content (the file
  carries no preset \<open>contentHash\<close>, or one equal to that hash), a lookup at time \<open>t\<close>
  of a content that is the same after trimming finds the entry made at time \<open>t0\<close>: it
  reports a duplicate with that entry if \<open>t - t0\<close> is less than the retention window
  of 7 days, and otherwise reports no duplicate and removes the entry.
\<close>

lemma lookup_with_trimmed_key:
  assumes "fileHash sha file = calculateContentHash sha (file_content file)"
    and "trim content = trim (file_content file)"
  shows "isDocumentDuplicate sha t content (registerProcessedDocument sha t0 file chunks cache)
         = (let registered = registerProcessedDocument sha t0 file chunks cache;
                hash = calculateContentHash sha (file_content file);
                entry = \<lparr>ce_hash = hash, ce_filename = file_name file, ce_timestamp = t0,
                         ce_chunks = length chunks,
                         ce_tokens = sum_list (map (\<lambda>c. md_tokens (chunk_metadata c)) chunks)\<rparr>
            in if t - t0 < retentionWindow
               then ((True, Some entry), registered)
               else ((False, None),
                     registered\<lparr>documentHashes := (documentHashes registered)(hash := None)\<rparr>))"
proof -
  have h: "calculateContentHash sha content = calculateContentHash sha (file_content file)"
    using assms(2) by (simp add: calculateContentHash_def)
  show ?thesis
    using assms(1)
    by (simp add: isDocumentDuplicate_def registerProcessedDocument_def h Let_def
          hoursSinceProcessed_window)
qed



subsection \<open>Reranking fallback\<close>

text \<open>
  Claim C6. For a non-empty result list, if the external reranking call throws,
  \<open>rerank\<close> does not throw: it returns the first \<open>topN\<close> of the original results,
  unchanged and in their order. The count is the one the source computes as
  \<open>topN || this.topN\<close>: the \<open>topN\<close> passed when it is a positive number, and the
  configured default otherwise.
\<close>

theorem C6_rerank_failure_returns_original_slice:
  assumes "results \<noteq> []"
    and "cohere q
           (map (\<lambda>result. chunk_content (rr_chunk result)) (take (min 50 (length results)) results))
           (min (topNOrDefault topN) (length (take (min 50 (length results)) results)))
         = Inl e"
  shows "rerank cohere q results topN = Inr (take (topNOrDefault topN) results)
         \<and> (\<forall>n. topN = Some (Suc n) \<longrightarrow>
               rerank cohere q results topN = Inr (take (Suc n) results))"
proof -
  have main: "rerank cohere q results topN = Inr (take (topNOrDefault topN) results)"
    using assms by (simp add: rerank_def Let_def)
  then show ?thesis
    by (auto simp: topNOrDefault_def)
qed

definition exampleResult :: "string \<Rightarrow> string \<Rightarrow> real \<Rightarrow> RetrievalResult" where
  "exampleResult documentId text score =
     \<lparr>rr_chunk = (exampleChunk text)
        \<lparr>chunk_metadata := (chunk_metadata (exampleChunk text))\<lparr>md_documentId := documentId\<rparr>\<rparr>,
      rr_score = score, rr_rerankedScore = None\<rparr>"

definition failingRerank :: rerankCall where
  "failingRerank q documents topN = Inl RerankFailed"

theorem C6_rerank_failure_returns_original_slice_witness:
  "[exampleResult ''d1'' ''a'' 0.9, exampleResult ''d2'' ''bb'' 0.8, exampleResult ''d1'' ''ccc'' 0.7] \<noteq> []
   \<and> rerank failingRerank ''q''
        [exampleResult ''d1'' ''a'' 0.9, exampleResult ''d2'' ''bb'' 0.8, exampleResult ''d1'' ''ccc'' 0.7]
        (Some 2)
      = Inr [exampleResult ''d1'' ''a'' 0.9, exampleResult ''d2'' ''bb'' 0.8]"
  using C6_rerank_failure_returns_original_slice
          [of "[exampleResult ''d1'' ''a'' 0.9, exampleResult ''d2'' ''bb'' 0.8,
                exampleResult ''d1'' ''ccc'' 0.7]"
              failingRerank "''q''" "Some 2" RerankFailed]
  by (simp add: failingRerank_def topNOrDefault_def)

subsection \<open>Empty retrieval\<close>

text \<open>
  Claim C7. When the final retrieval-result list of a query is empty, the pipeline
  returns the fixed insufficient-information answer with no citations and no sources,
  and makes no call to the generation service. This holds for \<open>query\<close>, which checks
  its final results itself, and for \<open>generateAnswer\<close> called with an empty list.
\<close>

theorem C7_empty_results_no_generation:
  assumes "finalResults svc question options = Inr []"
  shows "query svc question options
           = (\<lparr>qr_query = question, qr_answer = insufficientInformation, qr_citations = [],
               qr_sources = [], qr_retrievalResults = [], qr_tokensUsed = (0, 0, 0)\<rparr>, [])
         \<and> generateAnswer llm question [] includeMetrics
           = (Inr \<lparr>qr_query = question, qr_answer = insufficientInformation,
                   qr_citations = [], qr_sources = [], qr_retrievalResults = [],
                   qr_tokensUsed = (0, 0, 0)\<rparr>, [])"
  using assms by (simp add: query_def generateAnswer_def createNoAnswerResponse_def)

text \<open>Services whose vector search finds nothing; the generation service would answer
  if it were asked.\<close>

definition emptyIndexServices :: Services where
  "emptyIndexServices =
     \<lparr>svc_embedContent = (\<lambda>attempt text. Some [1]),
      svc_retrieve = (\<lambda>q topK. Inr []),
      svc_embedText = (\<lambda>text. Some [1]),
      svc_rerank = failingRerank,
      svc_llm = (\<lambda>system user.
        Inr \<lparr>comp_content = Some ''answer'', comp_promptTokens = 1,
              comp_completionTokens = 1, comp_totalTokens = 2\<rparr>)\<rparr>"

definition defaultOptions :: QueryOptions where
  "defaultOptions =
     \<lparr>opt_useMMR = True, opt_useReranking = True, opt_topK = 3, opt_rerankedK = 1,
      opt_includeMetrics = True\<rparr>"

theorem C7_empty_results_no_generation_witness:
  "finalResults emptyIndexServices ''what?'' defaultOptions = Inr []
   \<and> query emptyIndexServices ''what?'' defaultOptions
       = (\<lparr>qr_query = ''what?'', qr_answer = insufficientInformation, qr_citations = [],
           qr_sources = [], qr_retrievalResults = [], qr_tokensUsed = (0, 0, 0)\<rparr>, [])"
proof -
  have a: "finalResults emptyIndexServices ''what?'' defaultOptions = Inr []"
    by (simp add: finalResults_def emptyIndexServices_def defaultOptions_def
          retrieveWithMMR_def Let_def)
  show ?thesis
    using a C7_empty_results_no_generation [OF a] by simp
qed

subsection \<open>Citations\<close>

definition chunkIds :: "(string \<times> SourceDocument) list \<Rightarrow> nat list" where
  "chunkIds sourceMap = concat (map (\<lambda>entry. sd_relevantChunks (snd entry)) sourceMap)"

lemma chunkIds_Nil: "chunkIds [] = []"
  by (simp add: chunkIds_def)

lemma chunkIds_Cons: "chunkIds ((k, d) # sourceMap) = sd_relevantChunks d @ chunkIds sourceMap"
  by (simp add: chunkIds_def)

lemma chunkIds_addToSourceMap:
  "set (chunkIds (addToSourceMap metadata i sourceMap)) = insert i (set (chunkIds sourceMap))"
proof (induction sourceMap)
  case Nil
  show ?case by (simp add: chunkIds_Nil chunkIds_Cons)
next
  case (Cons entry sourceMap)
  obtain k d where e: "entry = (k, d)" by (cases entry)
  show ?case
  proof (cases "k = md_documentId metadata")
    case True
    then show ?thesis by (simp add: e chunkIds_Cons)
  next
    case False
    then show ?thesis by (simp add: e chunkIds_Cons Cons.IH)
  qed
qed

lemma distinct_chunkIds_addToSourceMap:
  "distinct (chunkIds sourceMap) \<Longrightarrow> i \<notin> set (chunkIds sourceMap)
     \<Longrightarrow> distinct (chunkIds (addToSourceMap metadata i sourceMap))"
proof (induction sourceMap)
  case Nil
  then show ?case by (simp add: chunkIds_Nil chunkIds_Cons)
next
  case (Cons entry sourceMap)
  obtain k d where e: "entry = (k, d)" by (cases entry)
  show ?case
  proof (cases "k = md_documentId metadata")
    case True
    with Cons.prems e show ?thesis
      by (auto simp: chunkIds_Cons)
  next
    case False
    from Cons.prems e have "distinct (chunkIds (addToSourceMap metadata i sourceMap))"
      by (intro Cons.IH) (auto simp: chunkIds_Cons)
    with Cons.prems e False show ?thesis
      by (auto simp: chunkIds_Cons chunkIds_addToSourceMap)
  qed
qed

lemma keys_addToSourceMap:
  "map fst (addToSourceMap metadata i sourceMap)
     = (if md_documentId metadata \<in> set (map fst sourceMap) then map fst sourceMap
        else map fst sourceMap @ [md_documentId metadata])"
proof (induction sourceMap)
  case Nil
  show ?case by simp
next
  case (Cons entry sourceMap)
  obtain k d where e: "entry = (k, d)" by (cases entry)
  show ?case
  proof (cases "k = md_documentId metadata")
    case True
    then show ?thesis by (simp add: e)
  next
    case False
    then show ?thesis by (simp add: e Cons.IH)
  qed
qed

lemma ids_addToSourceMap:
  assumes "\<forall>entry \<in> set sourceMap. sd_id (snd entry) = fst entry"
  shows "\<forall>entry \<in> set (addToSourceMap metadata i sourceMap). sd_id (snd entry) = fst entry"
  using assms
proof (induction sourceMap)
  case Nil
  show ?case by simp
next
  case (Cons entry sourceMap)
  obtain k d where e: "entry = (k, d)" by (cases entry)
  from Cons.prems have rest: "\<forall>entry \<in> set sourceMap. sd_id (snd entry) = fst entry"
    and hd: "sd_id d = k"
    by (simp_all add: e)
  show ?case
  proof (cases "k = md_documentId metadata")
    case True
    with rest hd show ?thesis by (simp add: e)
  next
    case False
    with Cons.IH [OF rest] hd show ?thesis by (simp add: e)
  qed
qed

lemma member_addToSourceMap:
  assumes "(k, d) \<in> set (addToSourceMap metadata i sourceMap)"
    and "j \<in> set (sd_relevantChunks d)"
  shows "(j = i \<and> k = md_documentId metadata)
         \<or> (\<exists>d'. (k, d') \<in> set sourceMap \<and> j \<in> set (sd_relevantChunks d'))"
  using assms
proof (induction sourceMap)
  case Nil
  then show ?case by auto
next
  case (Cons entry sourceMap)
  obtain k' d' where e: "entry = (k', d')" by (cases entry)
  show ?case
  proof (cases "k' = md_documentId metadata")
    case True
    with Cons.prems show ?thesis
      by (auto simp: e)
  next
    case False
    with Cons.prems have "(k, d) = (k', d') \<or> (k, d) \<in> set (addToSourceMap metadata i sourceMap)"
      by (simp add: e)
    then show ?thesis
    proof
      assume "(k, d) = (k', d')"
      with Cons.prems(2) show ?thesis by (auto simp: e)
    next
      assume "(k, d) \<in> set (addToSourceMap metadata i sourceMap)"
      from Cons.IH [OF this Cons.prems(2)] show ?thesis by (auto simp: e)
    qed
  qed
qed

lemma citationLoop_citations:
  "fst (citationLoop rs index citations contextText sourceMap)
     = citations @ map (\<lambda>i. citationOf (index + Suc i) (rs ! i)) [0..<length rs]"
proof (induction rs arbitrary: index citations contextText sourceMap)
  case Nil
  then show ?case by simp
next
  case (Cons r rs)
  show ?case
    by (simp add: Cons.IH Let_def map_upt_Suc del: upt_Suc)
qed

lemma citationLoop_contextText:
  "fst (snd (citationLoop rs index citations contextText sourceMap))
     = contextText @ concat (map (\<lambda>i. contextEntry (index + Suc i) (rs ! i)) [0..<length rs])"
proof (induction rs arbitrary: index citations contextText sourceMap)
  case Nil
  then show ?case by simp
next
  case (Cons r rs)
  show ?case
    by (simp add: Cons.IH Let_def map_upt_Suc del: upt_Suc)
qed

text \<open>What the loop keeps true of the source map while it walks the suffix
  \<open>drop index results\<close> of the result list.\<close>

definition sourceMapInv :: "RetrievalResult list \<Rightarrow> nat \<Rightarrow> (string \<times> SourceDocument) list \<Rightarrow> bool" where
  "sourceMapInv results index sourceMap \<longleftrightarrow>
     distinct (map fst sourceMap)
     \<and> (\<forall>entry \<in> set sourceMap. sd_id (snd entry) = fst entry)
     \<and> distinct (chunkIds sourceMap)
     \<and> set (chunkIds sourceMap) = {1..index}
     \<and> (\<forall>entry \<in> set sourceMap. \<forall>j \<in> set (sd_relevantChunks (snd entry)).
           md_documentId (chunk_metadata (rr_chunk (results ! (j - 1)))) = fst entry)"

lemma sourceMapInv_step:
  assumes "sourceMapInv results index sourceMap" and "index < length results"
  shows "sourceMapInv results (Suc index)
           (addToSourceMap (chunk_metadata (rr_chunk (results ! index))) (Suc index) sourceMap)"
proof -
  let ?md = "chunk_metadata (rr_chunk (results ! index))"
  let ?sm = "addToSourceMap ?md (Suc index) sourceMap"
  from assms(1) have d: "distinct (map fst sourceMap)"
    and i: "\<forall>entry \<in> set sourceMap. sd_id (snd entry) = fst entry"
    and dc: "distinct (chunkIds sourceMap)"
    and sc: "set (chunkIds sourceMap) = {1..index}"
    and g: "\<forall>entry \<in> set sourceMap. \<forall>j \<in> set (sd_relevantChunks (snd entry)).
              md_documentId (chunk_metadata (rr_chunk (results ! (j - 1)))) = fst entry"
    by (auto simp: sourceMapInv_def)
  have 1: "distinct (map fst ?sm)"
    using d by (simp add: keys_addToSourceMap)
  have 2: "\<forall>entry \<in> set ?sm. sd_id (snd entry) = fst entry"
    using i by (rule ids_addToSourceMap)
  have 3: "distinct (chunkIds ?sm)"
    using dc sc by (intro distinct_chunkIds_addToSourceMap) auto
  have 4: "set (chunkIds ?sm) = {1..Suc index}"
    using sc by (auto simp: chunkIds_addToSourceMap)
  have 5: "\<forall>entry \<in> set ?sm. \<forall>j \<in> set (sd_relevantChunks (snd entry)).
             md_documentId (chunk_metadata (rr_chunk (results ! (j - 1)))) = fst entry"
  proof (intro ballI)
    fix entry j
    assume e: "entry \<in> set ?sm" and j: "j \<in> set (sd_relevantChunks (snd entry))"
    from e have "(fst entry, snd entry) \<in> set ?sm" by simp
    from member_addToSourceMap [OF this j]
    show "md_documentId (chunk_metadata (rr_chunk (results ! (j - 1)))) = fst entry"
      using g by fastforce
  qed
  from 1 2 3 4 5 show ?thesis
    unfolding sourceMapInv_def by blast
qed

lemma citationLoop_sourceMap:
  assumes "sourceMapInv results index sourceMap" and "rs = drop index results"
    and "index \<le> length results"
  shows "sourceMapInv results (length results)
           (snd (snd (citationLoop rs index citations contextText sourceMap)))"
  using assms
proof (induction rs arbitrary: index citations contextText sourceMap)
  case Nil
  then have "index = length results" by simp
  with Nil show ?case by simp
next
  case (Cons r rs)
  from Cons.prems(2) have lt: "index < length results"
    by (metis drop_eq_Nil list.distinct(1) not_le)
  from Cons.prems(2) lt have r: "r = results ! index" and rs: "rs = drop (Suc index) results"
    by (metis Cons_nth_drop_Suc list.inject)+
  have inv: "sourceMapInv results (Suc index)
               (addToSourceMap (chunk_metadata (rr_chunk r)) (Suc index) sourceMap)"
    unfolding r using Cons.prems(1) lt by (rule sourceMapInv_step)
  from Cons.IH [OF inv rs] lt show ?case
    by (simp add: Let_def)
qed

text \<open>A retrieval result with the given document, source, section, position and
  content.\<close>

definition citedResult ::
  "string \<Rightarrow> string \<Rightarrow> string option \<Rightarrow> nat \<Rightarrow> string \<Rightarrow> RetrievalResult" where
  "citedResult documentId source sectionTitle position content =
     \<lparr>rr_chunk =
        \<lparr>chunk_id = ''chunk-'' @ content, chunk_content = content,
         chunk_metadata =
           \<lparr>md_source = source, md_title = ''notes'', md_section = sectionTitle,
            md_position = position, md_chunkIndex = 0, md_totalChunks = 1,
            md_documentId = documentId, md_timestamp = [], md_fileType = ''markdown'',
            md_tokens = 0\<rparr>,
         chunk_embedding = None\<rparr>,
      rr_score = 1, rr_rerankedScore = None\<rparr>"

text \<open>
  Claim C10. For a list of \<open>n\<close> retrieval results, \<open>prepareContextWithCitations\<close>
  produces the citations with ids 1 to \<open>n\<close> in rank order, citation \<open>i\<close> holding the
  content, source, section and position of result \<open>i\<close>; the context text is the header
  followed by one entry per result, tagged \<open>[i]\<close>, in the same order; the source
  documents have distinct ids, the ids listed by a source document belong to results with
  that document id, and the \<open>relevantChunks\<close> lists together contain every id from 1
  to \<open>n\<close> exactly once.
\<close>

theorem C10_citations_context_and_sources:
  assumes "prepareContextWithCitations results = (contextText, citations, sources)"
  shows "citations
           = map (\<lambda>i. \<lparr>cit_id = Suc i,
                        cit_text = chunk_content (rr_chunk (results ! i)),
                        cit_source = md_source (chunk_metadata (rr_chunk (results ! i))),
                        cit_section = md_section (chunk_metadata (rr_chunk (results ! i))),
                        cit_position = md_position (chunk_metadata (rr_chunk (results ! i)))\<rparr>)
               [0..<length results]
         \<and> map cit_id citations = [1..<Suc (length results)]
         \<and> contextText = ''Context information:'' @ [NL, NL]
              @ concat (map (\<lambda>i. ''['' @ showNat (Suc i) @ ''] ''
                                  @ chunk_content (rr_chunk (results ! i)) @ [NL, NL])
                            [0..<length results])
         \<and> distinct (map sd_id sources)
         \<and> (\<forall>d \<in> set sources. \<forall>j \<in> set (sd_relevantChunks d).
               md_documentId (chunk_metadata (rr_chunk (results ! (j - 1)))) = sd_id d)
         \<and> distinct (concat (map sd_relevantChunks sources))
         \<and> set (concat (map sd_relevantChunks sources)) = {1..length results}"
proof -
  let ?loop = "citationLoop results 0 [] (''Context information:'' @ [NL, NL]) []"
  from assms have c: "citations = fst ?loop" and t: "contextText = fst (snd ?loop)"
    and s: "sources = map snd (snd (snd ?loop))"
    by (auto simp: prepareContextWithCitations_def split: prod.splits)
  have inv0: "sourceMapInv results 0 []"
    by (simp add: sourceMapInv_def chunkIds_def)
  have inv: "sourceMapInv results (length results) (snd (snd ?loop))"
    using citationLoop_sourceMap [OF inv0] by simp
  have 1: "citations
             = map (\<lambda>i. \<lparr>cit_id = Suc i,
                          cit_text = chunk_content (rr_chunk (results ! i)),
                          cit_source = md_source (chunk_metadata (rr_chunk (results ! i))),
                          cit_section = md_section (chunk_metadata (rr_chunk (results ! i))),
                          cit_position = md_position (chunk_metadata (rr_chunk (results ! i)))\<rparr>)
                 [0..<length results]"
    unfolding c by (simp add: citationLoop_citations citationOf_def)
  have 2: "map cit_id citations = [1..<Suc (length results)]"
    unfolding 1 by (simp add: comp_def map_Suc_upt del: upt_Suc)
  have 3: "contextText = ''Context information:'' @ [NL, NL]
              @ concat (map (\<lambda>i. ''['' @ showNat (Suc i) @ ''] ''
                                  @ chunk_content (rr_chunk (results ! i)) @ [NL, NL])
                            [0..<length results])"
    unfolding t by (simp add: citationLoop_contextText contextEntry_def)
  have ids: "map sd_id sources = map fst (snd (snd ?loop))"
    using inv unfolding s sourceMapInv_def by simp
  have 4: "distinct (map sd_id sources)"
    unfolding ids using inv by (simp add: sourceMapInv_def)
  have 5: "\<forall>d \<in> set sources. \<forall>j \<in> set (sd_relevantChunks d).
             md_documentId (chunk_metadata (rr_chunk (results ! (j - 1)))) = sd_id d"
    using inv unfolding s sourceMapInv_def by fastforce
  have cc: "concat (map sd_relevantChunks sources) = chunkIds (snd (snd ?loop))"
    unfolding s chunkIds_def by (simp add: comp_def)
  have 6: "distinct (concat (map sd_relevantChunks sources))"
    and 7: "set (concat (map sd_relevantChunks sources)) = {1..length results}"
    unfolding cc using inv by (simp_all add: sourceMapInv_def)
  from 1 2 3 4 5 6 7 show ?thesis by blast
qed

theorem C10_citations_context_and_sources_witness:
  "prepareContextWithCitations
     [citedResult ''d1'' ''a.md'' (Some ''Intro'') 0 ''a'',
      citedResult ''d2'' ''b.txt'' None 3 ''bb'',
      citedResult ''d1'' ''a.md'' (Some ''Usage'') 7 ''ccc'']
   = (''Context information:'' @ [NL, NL] @ ''[1] a'' @ [NL, NL] @ ''[2] bb'' @ [NL, NL]
        @ ''[3] ccc'' @ [NL, NL],
      [\<lparr>cit_id = 1, cit_text = ''a'', cit_source = ''a.md'', cit_section = Some ''Intro'',
        cit_position = 0\<rparr>,
       \<lparr>cit_id = 2, cit_text = ''bb'', cit_source = ''b.txt'', cit_section = None,
        cit_position = 3\<rparr>,
       \<lparr>cit_id = 3, cit_text = ''ccc'', cit_source = ''a.md'', cit_section = Some ''Usage'',
        cit_position = 7\<rparr>],
      [\<lparr>sd_id = ''d1'', sd_title = ''notes'', sd_source = ''a.md'',
        sd_relevantChunks = [1, 3], sd_fileType = ''markdown''\<rparr>,
       \<lparr>sd_id = ''d2'', sd_title = ''notes'', sd_source = ''b.txt'',
        sd_relevantChunks = [2], sd_fileType = ''markdown''\<rparr>])
   \<and> set (concat (map sd_relevantChunks
        [\<lparr>sd_id = ''d1'', sd_title = ''notes'', sd_source = ''a.md'',
          sd_relevantChunks = [1, 3], sd_fileType = ''markdown''\<rparr>,
         \<lparr>sd_id = ''d2'', sd_title = ''notes'', sd_source = ''b.txt'',
          sd_relevantChunks = [2], sd_fileType = ''markdown''\<rparr>])) = {1..3}"
proof -
  have a: "prepareContextWithCitations
     [citedResult ''d1'' ''a.md'' (Some ''Intro'') 0 ''a'',
      citedResult ''d2'' ''b.txt'' None 3 ''bb'',
      citedResult ''d1'' ''a.md'' (Some ''Usage'') 7 ''ccc'']
   = (''Context information:'' @ [NL, NL] @ ''[1] a'' @ [NL, NL] @ ''[2] bb'' @ [NL, NL]
        @ ''[3] ccc'' @ [NL, NL],
      [\<lparr>cit_id = 1, cit_text = ''a'', cit_source = ''a.md'', cit_section = Some ''Intro'',
        cit_position = 0\<rparr>,
       \<lparr>cit_id = 2, cit_text = ''bb'', cit_source = ''b.txt'', cit_section = None,
        cit_position = 3\<rparr>,
       \<lparr>cit_id = 3, cit_text = ''ccc'', cit_source = ''a.md'', cit_section = Some ''Usage'',
        cit_position = 7\<rparr>],
      [\<lparr>sd_id = ''d1'', sd_title = ''notes'', sd_source = ''a.md'',
        sd_relevantChunks = [1, 3], sd_fileType = ''markdown''\<rparr>,
       \<lparr>sd_id = ''d2'', sd_title = ''notes'', sd_source = ''b.txt'',
        sd_relevantChunks = [2], sd_fileType = ''markdown''\<rparr>])"
    by (simp add: prepareContextWithCitations_def citedResult_def
          citationOf_def contextEntry_def showNat.simps Let_def)
  show ?thesis
    using a C10_citations_context_and_sources [OF a] by simp
qed

subsection \<open>Forward progress of the chunking loop\<close>



subsection \<open>MMR with \<open>\<lambda> = 1\<close>\<close>

text \<open>Rounding to the nearest double is monotone and leaves a double unchanged.\<close>

lemma roundHalfEven_int: "roundHalfEven (of_int m) = m"
  by (simp add: roundHalfEven_def)





lemma round64_zero: "round64 0 = Fin 0"
  by (simp add: round64_def nearest_def roundHalfEven_def)


lemma floor_log2_powi:
  assumes "0 < x"
  shows "(\<lfloor>log 2 x\<rfloor> = k) = (2 powi k \<le> x \<and> x < 2 powi (k + 1))"
proof -
  have a: "(2 :: real) powr real_of_int k = 2 powi k"
    by (rule powr_real_of_int') simp_all
  have b: "(2 :: real) powr real_of_int (k + 1) = 2 powi (k + 1)"
    by (rule powr_real_of_int') simp_all
  show ?thesis
    using floor_log_eq_powr_iff [of x 2 k] assms unfolding a b by simp
qed

lemma powi_pos: "0 < (2 :: real) powi k"
  by simp






lemma exponentOf_eq:
  assumes "2 powi k \<le> \<bar>x\<bar>" and "\<bar>x\<bar> < 2 powi (k + 1)" and "- 1022 \<le> k"
  shows "exponentOf x = k"
proof -
  have "(2 :: real) powi (- 1022) \<le> 2 powi k"
    using assms(3) by (intro power_int_increasing) simp_all
  with assms(1) have n: "2 powi (- 1022) \<le> \<bar>x\<bar>" by linarith
  then have pos: "0 < \<bar>x\<bar>"
    using powi_pos [of "- 1022"] by linarith
  have "\<lfloor>log 2 \<bar>x\<bar>\<rfloor> = k"
    using floor_log2_powi [OF pos, of k] assms by simp
  with n show ?thesis by (simp add: exponentOf_def)
qed


lemma spacing_pos: "0 < spacing x"
  by (simp add: spacing_def)






















text \<open>Every double is left unchanged: a multiple of the spacing of its exponent, or of
  \<open>2 ^ -1074\<close> in the subnormal range.\<close>

lemma nearest_multiple:
  assumes "x = of_int m * spacing x"
  shows "nearest x = x"
proof -
  define s where "s = spacing x"
  have sp: "0 < s" unfolding s_def by (rule spacing_pos)
  have xs: "x = of_int m * s" using assms by (simp only: s_def)
  have "x / s = of_int m"
    using sp by (simp add: xs)
  then have "of_int (roundHalfEven (x / s)) * s = of_int m * s"
    by (simp only: roundHalfEven_int)
  then show ?thesis
    unfolding nearest_def s_def [symmetric] using xs by simp
qed

lemma round64_exact:
  assumes "2 powi k \<le> \<bar>x\<bar>" and "\<bar>x\<bar> < 2 powi (k + 1)"
    and "- 1022 \<le> k" and "k \<le> 1023"
    and "x = of_int m * 2 powi (k - 52)"
  shows "round64 x = Fin x"
proof -
  have e: "exponentOf x = k"
    using assms(1-3) by (rule exponentOf_eq)
  then have q: "spacing x = 2 powi (k - 52)"
    by (simp add: spacing_def)
  have n: "nearest x = x"
    using assms(5) unfolding q [symmetric] by (rule nearest_multiple)
  have "(2 :: real) powi (k + 1) \<le> 2 powi 1024"
    using assms(4) by (intro power_int_increasing) simp_all
  with assms(2) have "\<bar>x\<bar> < 2 ^ 1024" by simp
  then show ?thesis
    by (simp add: round64_def n Let_def abs_less_iff)
qed

lemma round64_subnormal:
  assumes "\<bar>x\<bar> < 2 powi (- 1022)" and "x = of_int m * 2 powi (- 1074)"
  shows "round64 x = Fin x"
proof -
  have q: "spacing x = 2 powi (- 1074)"
    using assms(1) by (simp add: spacing_def exponentOf_def)
  have n: "nearest x = x"
    using assms(2) unfolding q [symmetric] by (rule nearest_multiple)
  have "(2 :: real) powi (- 1022) \<le> 2 powi 1024"
    by (intro power_int_increasing) simp_all
  with assms(1) have "\<bar>x\<bar> < 2 ^ 1024" by simp
  then show ?thesis
    by (simp add: round64_def n Let_def abs_less_iff)
qed

lemma roundHalfEven_small:
  assumes "0 \<le> r" and "r < 1 / 2"
  shows "roundHalfEven r = 0"
proof -
  have "\<lfloor>r\<rfloor> = 0"
    using assms by (simp add: floor_eq_iff)
  with assms show ?thesis
    by (simp add: roundHalfEven_def Let_def)
qed

lemma round64_underflow:
  assumes "0 \<le> x" and "x < 2 powi (- 1075)"
  shows "round64 x = Fin 0"
proof -
  have "(2 :: real) powi (- 1075) \<le> 2 powi (- 1022)"
    by (intro power_int_increasing) simp_all
  with assms have e: "exponentOf x = - 1022"
    by (simp add: exponentOf_def)
  then have q: "spacing x = 2 powi (- 1074)"
    by (simp add: spacing_def)
  have "(2 :: real) powi (- 1075 + 1) = 2 powi (- 1075) * 2 powi 1"
    by (rule power_int_add) simp
  then have "(2 :: real) powi (- 1074) = 2 * 2 powi (- 1075)"
    by simp
  with assms(2) have "x / spacing x < 1 / 2"
    using spacing_pos [of x] by (simp add: q pos_divide_less_eq)
  moreover have "0 \<le> x / spacing x"
    using assms(1) spacing_pos [of x] by simp
  ultimately have "roundHalfEven (x / spacing x) = 0"
    by (intro roundHalfEven_small)
  then show ?thesis
    by (simp add: round64_def nearest_def Let_def)
qed

text \<open>The squares of the components can underflow: a vector that is not zero then has
  norm zero, and its similarity with itself is \<open>0 / 0\<close>.\<close>

lemma cosineSimilarity_underflow:
  "cosineSimilarity [2 powi (- 600)] [2 powi (- 600)] = Inr NaN"
proof -
  define x :: real where "x = 2 powi (- 600)"
  have "(2 :: real) powi (- 600 + - 600) = 2 powi (- 600) * 2 powi (- 600)"
    by (rule power_int_add) simp
  then have xx: "x * x = 2 powi (- 1200)"
    by (simp add: x_def)
  have "(2 :: real) powi (- 1200) < 2 powi (- 1075)"
    by (intro power_int_strict_increasing) simp_all
  then have "round64 (x * x) = Fin 0"
    unfolding xx by (intro round64_underflow) simp_all
  then have "cosineSimilarity [x] [x] = Inr NaN"
    by (simp add: cosineSimilarity_def round64_zero)
  then show ?thesis
    by (simp only: x_def)
qed







text \<open>The similarity the inner loop computes for a candidate and a selected result,
  and whether it is a finite number.\<close>

definition similarity ::
  "(string \<Rightarrow> vec option) \<Rightarrow> RetrievalResult \<Rightarrow> RetrievalResult \<Rightarrow> error + number" where
  "similarity embedText candidate selectedResult =
     (case generateEmbeddingPlain embedText (chunk_content (rr_chunk candidate)) of
        Inl e \<Rightarrow> Inl e
      | Inr candidateEmbedding \<Rightarrow>
          (case generateEmbeddingPlain embedText (chunk_content (rr_chunk selectedResult)) of
             Inl e \<Rightarrow> Inl e
           | Inr selectedEmbedding \<Rightarrow> cosineSimilarity candidateEmbedding selectedEmbedding))"













subsection \<open>Cancelling a queued job\<close>

text \<open>A job that is out of the queue, is not running and has no stage recorded.\<close>

definition notStarted :: "nat \<Rightarrow> Orchestrator \<Rightarrow> bool" where
  "notStarted j s \<longleftrightarrow>
     j \<notin> set (jobQueue s) \<and> j \<notin> fst ` set (running s) \<and> j \<notin> fst ` set (stageLog s)
     \<and> j < nextId s"

lemma keys_map_update:
  "fst ` set (map (\<lambda>entry. if fst entry = i then (fst entry, g entry) else entry) xs)
     = fst ` set xs"
proof -
  have "map fst (map (\<lambda>entry. if fst entry = i then (fst entry, g entry) else entry) xs)
          = map fst xs"
    by (induction xs) auto
  then have "set (map fst (map (\<lambda>entry. if fst entry = i then (fst entry, g entry) else entry) xs))
               = set (map fst xs)"
    by simp
  then show ?thesis by (simp only: set_map)
qed

lemma updateJob_fields [simp]:
  "jobQueue (updateJob i f s) = jobQueue s"
  "running (updateJob i f s) = running s"
  "stageLog (updateJob i f s) = stageLog s"
  "nextId (updateJob i f s) = nextId s"
  "isProcessing (updateJob i f s) = isProcessing s"
  "activeJobs (updateJob i f s) = activeJobs s"
  "fst ` set (jobs (updateJob i f s)) = fst ` set (jobs s)"
  using keys_map_update [of i "\<lambda>entry. f (snd entry)" "jobs s"]
  by (simp_all add: updateJob_def)

lemma enterStage_fields [simp]:
  "jobQueue (enterStage i status p s) = jobQueue s"
  "running (enterStage i status p s) = running s"
  "stageLog (enterStage i status p s) = stageLog s @ [(i, status)]"
  "nextId (enterStage i status p s) = nextId s"
  "fst ` set (jobs (enterStage i status p s)) = fst ` set (jobs s)"
  by (simp_all add: enterStage_def)

lemma finishRun_fields [simp]:
  "jobQueue (finishRun i s) = jobQueue s"
  "running (finishRun i s) = filter (\<lambda>entry. fst entry \<noteq> i) (running s)"
  "stageLog (finishRun i s) = stageLog s"
  "nextId (finishRun i s) = nextId s"
  "jobs (finishRun i s) = jobs s"
  by (simp_all add: finishRun_def)

lemma setStage_fields [simp]:
  "jobQueue (setStage i st s) = jobQueue s"
  "fst ` set (running (setStage i st s)) = fst ` set (running s)"
  "stageLog (setStage i st s) = stageLog s"
  "nextId (setStage i st s) = nextId s"
  "jobs (setStage i st s) = jobs s"
proof -
  have "(\<lambda>entry. if fst entry = i then (i, st) else entry)
          = (\<lambda>entry :: nat \<times> stage. if fst entry = i then (fst entry, st) else entry)"
    by auto
  then show "fst ` set (running (setStage i st s)) = fst ` set (running s)"
    using keys_map_update [of i "\<lambda>entry. st" "running s"]
    by (simp add: setStage_def)
qed (simp_all add: setStage_def)

lemma deleteJobs_fields [simp]:
  "jobQueue (deleteJobs ids s) = jobQueue s"
  "running (deleteJobs ids s) = running s"
  "stageLog (deleteJobs ids s) = stageLog s"
  "nextId (deleteJobs ids s) = nextId s"
  "jobs (deleteJobs ids s) = filter (\<lambda>entry. fst entry \<notin> set ids) (jobs s)"
  by (simp_all add: deleteJobs_def)

lemma cleanupOldJobs_fields [simp]:
  "jobQueue (cleanupOldJobs now s) = jobQueue s"
  "running (cleanupOldJobs now s) = running s"
  "stageLog (cleanupOldJobs now s) = stageLog s"
  "nextId (cleanupOldJobs now s) = nextId s"
  by (simp_all add: cleanupOldJobs_def Let_def)

lemma map_of_running_key: "map_of xs k = Some v \<Longrightarrow> k \<in> fst ` set xs"
  by (metis map_of_eq_None_iff option.distinct(1))

lemma notStarted_processQueue:
  "notStarted j s \<Longrightarrow> notStarted j (processQueue s)"
  by (auto simp: notStarted_def processQueue_def Let_def split: list.splits option.splits)

lemma notStarted_createJob:
  "notStarted j s \<Longrightarrow> notStarted j (snd (createJob files now s))"
proof -
  assume a: "notStarted j s"
  let ?s = "s\<lparr>jobs := jobs s @ [(nextId s,
               \<lparr>job_id = nextId s, job_files = files, job_status = PENDING, job_progress = 0,
                job_startTime = now, job_endTime = None, job_error = None\<rparr>)],
             jobQueue := jobQueue s @ [nextId s], nextId := nextId s + 1\<rparr>"
  from a have "notStarted j ?s"
    by (auto simp: notStarted_def)
  then have "notStarted j (processQueue ?s)"
    by (rule notStarted_processQueue)
  then show ?thesis
    by (simp add: createJob_def Let_def)
qed

lemma notStarted_cancelJob:
  "notStarted j s \<Longrightarrow> notStarted j (snd (cancelJob i now s))"
  by (auto simp: notStarted_def cancelJob_def split: option.splits dest: notin_set_remove1)

lemma notStarted_resume:
  assumes "notStarted j s"
  shows "notStarted j (resume i result noUniqueFiles now s)"
proof (cases "map_of (running s) i")
  case None
  with assms show ?thesis by (simp add: resume_def)
next
  case (Some st)
  then have "i \<in> fst ` set (running s)" by (rule map_of_running_key)
  with assms have ij: "i \<noteq> j" by (auto simp: notStarted_def)
  with assms Some show ?thesis
    by (cases result; cases st)
       (auto simp: notStarted_def resume_def failJob_def completeJob_def Let_def)
qed

lemma notStarted_step: "notStarted j s \<Longrightarrow> notStarted j (step e s)"
proof (cases e)
  case (CreateJob files now)
  assume "notStarted j s"
  with CreateJob show ?thesis by (simp add: notStarted_createJob)
next
  case (CancelJob i now)
  assume "notStarted j s"
  with CancelJob show ?thesis by (simp add: notStarted_cancelJob)
next
  case ProcessQueue
  assume "notStarted j s"
  with ProcessQueue show ?thesis by (simp add: notStarted_processQueue)
next
  case (Resume i result noUniqueFiles now)
  assume "notStarted j s"
  with Resume show ?thesis by (simp add: notStarted_resume)
next
  case (CleanupOldJobs now)
  assume "notStarted j s"
  with CleanupOldJobs show ?thesis by (simp add: notStarted_def)
qed

lemma notStarted_run: "notStarted j s \<Longrightarrow> notStarted j (run events s)"
  unfolding run_def by (induction events arbitrary: s) (auto intro: notStarted_step)

lemma notStarted_stagesOf: "notStarted j s \<Longrightarrow> stagesOf j s = []"
  by (auto simp: notStarted_def stagesOf_def filter_empty_conv image_iff)
text \<open>What holds in every state the service can reach: queued ids were issued, occur
  once, and belong to jobs that have not started; a job that is still \<open>PENDING\<close> is
  in the queue.\<close>

definition orchestratorInv :: "Orchestrator \<Rightarrow> bool" where
  "orchestratorInv s \<longleftrightarrow>
     (\<forall>j \<in> set (jobQueue s). j < nextId s)
     \<and> distinct (jobQueue s)
     \<and> (\<forall>j \<in> set (jobQueue s). j \<notin> fst ` set (running s) \<and> j \<notin> fst ` set (stageLog s))
     \<and> (\<forall>j job. lookupJob s j = Some job \<and> job_status job = PENDING \<longrightarrow> j \<in> set (jobQueue s))
     \<and> (\<forall>j \<in> fst ` set (jobs s). j < nextId s)
     \<and> (\<forall>j \<in> fst ` set (running s). j < nextId s)
     \<and> (\<forall>j \<in> fst ` set (stageLog s). j < nextId s)"

lemma map_of_map_update:
  "map_of (map (\<lambda>entry. if fst entry = i then (fst entry, f (snd entry)) else entry) xs) j
     = (if j = i then map_option f (map_of xs j) else map_of xs j)"
  by (induction xs) auto

lemma map_of_filter_keys:
  "map_of (filter (\<lambda>entry. fst entry \<notin> R) xs) j = (if j \<in> R then None else map_of xs j)"
  by (induction xs) auto

lemma lookupJob_updateJob:
  "lookupJob (updateJob i f s) j
     = (if j = i then map_option f (lookupJob s j) else lookupJob s j)"
  by (simp add: lookupJob_def updateJob_def map_of_map_update)

lemma lookupJob_enterStage:
  "lookupJob (enterStage i status p s) j
     = (if j = i
        then map_option (\<lambda>job. job\<lparr>job_status := status, job_progress := p\<rparr>) (lookupJob s j)
        else lookupJob s j)"
proof -
  have "lookupJob (enterStage i status p s) j
          = lookupJob (updateJob i (\<lambda>job. job\<lparr>job_status := status, job_progress := p\<rparr>) s) j"
    by (simp add: lookupJob_def enterStage_def)
  then show ?thesis
    by (simp only: lookupJob_updateJob)
qed

lemma lookupJob_frame [simp]:
  "lookupJob (finishRun i s) = lookupJob s"
  "lookupJob (setStage i st s) = lookupJob s"
  by (simp_all add: lookupJob_def fun_eq_iff)

lemma lookupJob_deleteJobs:
  "lookupJob (deleteJobs ids s) j = (if j \<in> set ids then None else lookupJob s j)"
  by (simp add: lookupJob_def map_of_filter_keys)

lemma lookupJob_cleanupOldJobs:
  "lookupJob (cleanupOldJobs now s) j = Some job \<Longrightarrow> lookupJob s j = Some job"
  by (auto simp: cleanupOldJobs_def Let_def lookupJob_deleteJobs split: if_splits)

lemma keys_cleanupOldJobs:
  "fst ` set (jobs (cleanupOldJobs now s)) \<subseteq> fst ` set (jobs s)"
  by (auto simp: cleanupOldJobs_def Let_def)

lemma orchestratorInv_initial: "orchestratorInv initialOrchestrator"
  by (simp add: orchestratorInv_def initialOrchestrator_def lookupJob_def)

lemma orchestratorInv_processQueue:
  assumes "orchestratorInv s"
  shows "orchestratorInv (processQueue s)"
proof (cases "isProcessing s \<or> activeJobs s \<ge> maxConcurrentJobs")
  case True
  with assms show ?thesis by (simp add: processQueue_def)
next
  case False
  note free = this
  show ?thesis
  proof (cases "jobQueue s")
    case Nil
    with assms free show ?thesis by (simp add: processQueue_def)
  next
    case (Cons h rest)
    let ?s1 = "s\<lparr>jobQueue := rest\<rparr>"
    from assms Cons have h: "h < nextId s" "h \<notin> set rest" "distinct rest"
      and hr: "h \<notin> fst ` set (running s)" "h \<notin> fst ` set (stageLog s)"
      by (auto simp: orchestratorInv_def)
    show ?thesis
    proof (cases "lookupJob s h")
      case None
      have "orchestratorInv ?s1"
        using assms Cons None
        by (auto simp: orchestratorInv_def lookupJob_def)
      with free Cons None show ?thesis
        by (simp add: processQueue_def lookupJob_def)
    next
      case (Some job)
      let ?s2 = "enterStage h UPLOADING 5
                   (?s1\<lparr>activeJobs := activeJobs ?s1 + 1, isProcessing := True,
                        running := running ?s1 @ [(h, AwaitInit)]\<rparr>)"
      have l: "lookupJob ?s2 j
                 = (if j = h
                    then map_option (\<lambda>job. job\<lparr>job_status := UPLOADING, job_progress := 5\<rparr>)
                           (lookupJob s j)
                    else lookupJob s j)" for j
        by (simp add: lookupJob_enterStage) (simp add: lookupJob_def)
      have "orchestratorInv ?s2"
        unfolding orchestratorInv_def
      proof (intro conjI)
        show "\<forall>j \<in> set (jobQueue ?s2). j < nextId ?s2"
          using assms Cons by (auto simp: orchestratorInv_def)
        show "distinct (jobQueue ?s2)"
          using h by simp
        show "\<forall>j \<in> set (jobQueue ?s2). j \<notin> fst ` set (running ?s2) \<and> j \<notin> fst ` set (stageLog ?s2)"
          using assms Cons h by (auto simp: orchestratorInv_def)
        show "\<forall>j job. lookupJob ?s2 j = Some job \<and> job_status job = PENDING
                \<longrightarrow> j \<in> set (jobQueue ?s2)"
        proof (intro allI impI)
          fix j job'
          assume a: "lookupJob ?s2 j = Some job' \<and> job_status job' = PENDING"
          then have "j \<noteq> h"
            using l [of h] by (cases "lookupJob s h") auto
          with a have "lookupJob s j = Some job'"
            using l [of j] by simp
          with a assms have "j \<in> set (jobQueue s)"
            by (auto simp: orchestratorInv_def)
          with Cons \<open>j \<noteq> h\<close> show "j \<in> set (jobQueue ?s2)" by simp
        qed
        show "\<forall>j \<in> fst ` set (jobs ?s2). j < nextId ?s2"
          using assms by (auto simp: orchestratorInv_def)
        show "\<forall>j \<in> fst ` set (running ?s2). j < nextId ?s2"
          using assms h by (auto simp: orchestratorInv_def)
        show "\<forall>j \<in> fst ` set (stageLog ?s2). j < nextId ?s2"
          using assms h by (auto simp: orchestratorInv_def)
      qed
      with free Cons Some show ?thesis
        by (simp add: processQueue_def lookupJob_def Let_def)
    qed
  qed
qed

lemma orchestratorInv_createJob:
  assumes "orchestratorInv s"
  shows "orchestratorInv (snd (createJob files now s))"
proof -
  let ?job = "\<lparr>job_id = nextId s, job_files = files, job_status = PENDING, job_progress = 0,
               job_startTime = now, job_endTime = None, job_error = None\<rparr>"
  let ?s = "s\<lparr>jobs := jobs s @ [(nextId s, ?job)], jobQueue := jobQueue s @ [nextId s],
             nextId := nextId s + 1\<rparr>"
  have "orchestratorInv ?s"
    unfolding orchestratorInv_def
  proof (intro conjI)
    show "\<forall>j \<in> set (jobQueue ?s). j < nextId ?s"
      using assms by (auto simp: orchestratorInv_def)
    show "distinct (jobQueue ?s)"
      using assms by (auto simp: orchestratorInv_def)
    show "\<forall>j \<in> set (jobQueue ?s). j \<notin> fst ` set (running ?s) \<and> j \<notin> fst ` set (stageLog ?s)"
      using assms by (auto simp: orchestratorInv_def)
    show "\<forall>j job. lookupJob ?s j = Some job \<and> job_status job = PENDING
            \<longrightarrow> j \<in> set (jobQueue ?s)"
    proof (intro allI impI)
      fix j job'
      assume a: "lookupJob ?s j = Some job' \<and> job_status job' = PENDING"
      show "j \<in> set (jobQueue ?s)"
      proof (cases "lookupJob s j")
        case None
        with a have "j = nextId s"
          by (auto simp: lookupJob_def map_add_def split: option.splits if_splits)
        then show ?thesis by simp
      next
        case (Some job0)
        with a have "job0 = job'"
          by (auto simp: lookupJob_def map_add_def split: option.splits)
        with a Some assms have "j \<in> set (jobQueue s)"
          by (auto simp: orchestratorInv_def)
        then show ?thesis by simp
      qed
    qed
    show "\<forall>j \<in> fst ` set (jobs ?s). j < nextId ?s"
      using assms by (auto simp: orchestratorInv_def)
    show "\<forall>j \<in> fst ` set (running ?s). j < nextId ?s"
      using assms by (auto simp: orchestratorInv_def)
    show "\<forall>j \<in> fst ` set (stageLog ?s). j < nextId ?s"
      using assms by (auto simp: orchestratorInv_def)
  qed
  then have "orchestratorInv (processQueue ?s)"
    by (rule orchestratorInv_processQueue)
  then show ?thesis
    by (simp add: createJob_def Let_def)
qed

lemma orchestratorInv_cancelJob:
  assumes "orchestratorInv s"
  shows "orchestratorInv (snd (cancelJob i now s))"
proof (cases "lookupJob s i")
  case None
  with assms show ?thesis by (simp add: cancelJob_def)
next
  case (Some job)
  show ?thesis
  proof (cases "job_status job = COMPLETE \<or> job_status job = FAILED")
    case True
    with assms Some show ?thesis by (simp add: cancelJob_def)
  next
    case False
    let ?s = "(updateJob i
                 (\<lambda>job. job\<lparr>job_status := CANCELLED, job_endTime := Some now, job_progress := 0\<rparr>) s)
                \<lparr>jobQueue := remove1 i (jobQueue s)\<rparr>"
    have l: "lookupJob ?s j
               = (if j = i
                  then map_option
                         (\<lambda>job. job\<lparr>job_status := CANCELLED, job_endTime := Some now,
                                     job_progress := 0\<rparr>) (lookupJob s j)
                  else lookupJob s j)" for j
      using lookupJob_updateJob [of i _ s j] by (simp add: lookupJob_def)
    have "orchestratorInv ?s"
      unfolding orchestratorInv_def
    proof (intro conjI)
      show "\<forall>j \<in> set (jobQueue ?s). j < nextId ?s"
        using assms by (auto simp: orchestratorInv_def dest: notin_set_remove1)
      show "distinct (jobQueue ?s)"
        using assms by (auto simp: orchestratorInv_def)
      show "\<forall>j \<in> set (jobQueue ?s). j \<notin> fst ` set (running ?s) \<and> j \<notin> fst ` set (stageLog ?s)"
        using assms by (auto simp: orchestratorInv_def dest: notin_set_remove1)
      show "\<forall>j job. lookupJob ?s j = Some job \<and> job_status job = PENDING
              \<longrightarrow> j \<in> set (jobQueue ?s)"
      proof (intro allI impI)
        fix j job'
        assume a: "lookupJob ?s j = Some job' \<and> job_status job' = PENDING"
        then have ji: "j \<noteq> i"
          using l [of i] by (cases "lookupJob s i") auto
        with a have "lookupJob s j = Some job'"
          using l [of j] by simp
        with a assms have "j \<in> set (jobQueue s)"
          by (auto simp: orchestratorInv_def)
        with ji show "j \<in> set (jobQueue ?s)" by simp
      qed
      show "\<forall>j \<in> fst ` set (jobs ?s). j < nextId ?s"
        using assms by (auto simp: orchestratorInv_def)
      show "\<forall>j \<in> fst ` set (running ?s). j < nextId ?s"
        using assms by (auto simp: orchestratorInv_def)
      show "\<forall>j \<in> fst ` set (stageLog ?s). j < nextId ?s"
        using assms by (auto simp: orchestratorInv_def)
    qed
    with Some False show ?thesis by (simp add: cancelJob_def)
  qed
qed
lemma resume_fields:
  "jobQueue (resume i result noUniqueFiles now s) = jobQueue s"
  "nextId (resume i result noUniqueFiles now s) = nextId s"
  "fst ` set (jobs (resume i result noUniqueFiles now s)) = fst ` set (jobs s)"
  "fst ` set (running (resume i result noUniqueFiles now s)) \<subseteq> fst ` set (running s)"
  "fst ` set (stageLog (resume i result noUniqueFiles now s))
     \<subseteq> fst ` set (stageLog s) \<union> (if i \<in> fst ` set (running s) then {i} else {})"
proof -
  show "jobQueue (resume i result noUniqueFiles now s) = jobQueue s"
    by (cases "map_of (running s) i"; cases result; cases "the (map_of (running s) i)")
       (simp_all add: resume_def failJob_def completeJob_def Let_def)
  show "nextId (resume i result noUniqueFiles now s) = nextId s"
    by (cases "map_of (running s) i"; cases result; cases "the (map_of (running s) i)")
       (simp_all add: resume_def failJob_def completeJob_def Let_def)
  show "fst ` set (jobs (resume i result noUniqueFiles now s)) = fst ` set (jobs s)"
    by (cases "map_of (running s) i"; cases result; cases "the (map_of (running s) i)")
       (simp_all add: resume_def failJob_def completeJob_def Let_def)
  show "fst ` set (running (resume i result noUniqueFiles now s)) \<subseteq> fst ` set (running s)"
    by (cases "map_of (running s) i"; cases result; cases "the (map_of (running s) i)")
       (auto simp: resume_def failJob_def completeJob_def Let_def)
  show "fst ` set (stageLog (resume i result noUniqueFiles now s))
          \<subseteq> fst ` set (stageLog s) \<union> (if i \<in> fst ` set (running s) then {i} else {})"
  proof (cases "map_of (running s) i")
    case None
    then show ?thesis by (simp add: resume_def)
  next
    case (Some st)
    then have "i \<in> fst ` set (running s)" by (rule map_of_running_key)
    with Some show ?thesis
      by (cases result; cases st)
         (auto simp: resume_def failJob_def completeJob_def Let_def)
  qed
qed

lemma lookupJob_resume_pending:
  assumes "lookupJob (resume i result noUniqueFiles now s) j = Some job"
    and "job_status job = PENDING"
  shows "lookupJob s j = Some job"
proof (cases "map_of (running s) i")
  case None
  with assms show ?thesis by (simp add: resume_def)
next
  case (Some st)
  show ?thesis
  proof (cases "j = i")
    case False
    with assms Some show ?thesis
      by (cases result; cases st)
         (simp_all add: resume_def failJob_def completeJob_def Let_def lookupJob_updateJob
            lookupJob_enterStage split: if_splits)
  next
    case True
    with assms Some have False
      by (cases result; cases st; cases "lookupJob s i")
         (auto simp: resume_def failJob_def completeJob_def Let_def lookupJob_updateJob
            lookupJob_enterStage split: if_splits)
    then show ?thesis ..
  qed
qed

lemma orchestratorInv_resume:
  assumes "orchestratorInv s"
  shows "orchestratorInv (resume i result noUniqueFiles now s)"
proof -
  let ?s = "resume i result noUniqueFiles now s"
  note f = resume_fields [of i result noUniqueFiles now s]
  show ?thesis
    unfolding orchestratorInv_def
  proof (intro conjI)
    show "\<forall>j \<in> set (jobQueue ?s). j < nextId ?s"
      using assms by (simp add: f orchestratorInv_def)
    show "distinct (jobQueue ?s)"
      using assms by (simp add: f orchestratorInv_def)
    show "\<forall>j \<in> set (jobQueue ?s). j \<notin> fst ` set (running ?s) \<and> j \<notin> fst ` set (stageLog ?s)"
    proof
      fix j
      assume "j \<in> set (jobQueue ?s)"
      then have q: "j \<in> set (jobQueue s)" by (simp add: f)
      with assms have n: "j \<notin> fst ` set (running s)" "j \<notin> fst ` set (stageLog s)"
        by (auto simp: orchestratorInv_def)
      from n(1) f(4) have 1: "j \<notin> fst ` set (running ?s)" by blast
      from n f(5) have 2: "j \<notin> fst ` set (stageLog ?s)"
        by (auto split: if_splits)
      from 1 2 show "j \<notin> fst ` set (running ?s) \<and> j \<notin> fst ` set (stageLog ?s)" ..
    qed
    show "\<forall>j job. lookupJob ?s j = Some job \<and> job_status job = PENDING
            \<longrightarrow> j \<in> set (jobQueue ?s)"
      using assms lookupJob_resume_pending [of i result noUniqueFiles now s]
      by (simp add: f orchestratorInv_def)
    show "\<forall>j \<in> fst ` set (jobs ?s). j < nextId ?s"
      using assms by (simp add: f orchestratorInv_def)
    show "\<forall>j \<in> fst ` set (running ?s). j < nextId ?s"
    proof
      fix j
      assume "j \<in> fst ` set (running ?s)"
      with f(4) have "j \<in> fst ` set (running s)" by blast
      with assms have "j < nextId s"
        unfolding orchestratorInv_def by blast
      then show "j < nextId ?s" by (simp add: f(2))
    qed
    show "\<forall>j \<in> fst ` set (stageLog ?s). j < nextId ?s"
    proof
      fix j
      assume "j \<in> fst ` set (stageLog ?s)"
      with f(5) have "j \<in> fst ` set (stageLog s) \<or> j \<in> fst ` set (running s)"
        by (auto split: if_splits)
      with assms have "j < nextId s"
        unfolding orchestratorInv_def by blast
      then show "j < nextId ?s" by (simp add: f(2))
    qed
  qed
qed

lemma orchestratorInv_cleanupOldJobs:
  assumes "orchestratorInv s"
  shows "orchestratorInv (cleanupOldJobs now s)"
  unfolding orchestratorInv_def
proof (intro conjI)
  let ?s = "cleanupOldJobs now s"
  show "\<forall>j job. lookupJob ?s j = Some job \<and> job_status job = PENDING \<longrightarrow> j \<in> set (jobQueue ?s)"
    using assms lookupJob_cleanupOldJobs [of now s]
    by (simp add: orchestratorInv_def)
  show "\<forall>j \<in> fst ` set (jobs ?s). j < nextId ?s"
  proof
    fix j
    assume "j \<in> fst ` set (jobs ?s)"
    with keys_cleanupOldJobs [of now s] have "j \<in> fst ` set (jobs s)" by blast
    with assms have "j < nextId s"
      unfolding orchestratorInv_def by blast
    then show "j < nextId ?s" by simp
  qed
qed (use assms in \<open>simp_all add: orchestratorInv_def\<close>)

lemma orchestratorInv_step: "orchestratorInv s \<Longrightarrow> orchestratorInv (step e s)"
  by (cases e)
     (simp_all add: orchestratorInv_createJob orchestratorInv_cancelJob
        orchestratorInv_processQueue orchestratorInv_resume orchestratorInv_cleanupOldJobs)

lemma orchestratorInv_run: "orchestratorInv s \<Longrightarrow> orchestratorInv (run events s)"
  unfolding run_def by (induction events arbitrary: s) (auto intro: orchestratorInv_step)

text \<open>
  Claim C9. Take any state the service has reached from its start, and a job that is
  \<open>PENDING\<close> in it. The job is in the queue. \<open>cancelJob\<close> succeeds, takes the job id
  out of the queue and marks the job \<open>CANCELLED\<close>; and whatever happens afterwards
  (jobs created, cancelled, the queue processed, running jobs resumed, clean-ups), no
  processing stage is ever recorded for that job.
\<close>

theorem C9_cancelled_pending_job_never_runs:
  assumes "s = run history initialOrchestrator"
    and "lookupJob s jobId = Some job" and "job_status job = PENDING"
  shows "jobId \<in> set (jobQueue s)
         \<and> fst (cancelJob jobId now s)
         \<and> jobId \<notin> set (jobQueue (snd (cancelJob jobId now s)))
         \<and> map_option job_status (lookupJob (snd (cancelJob jobId now s)) jobId) = Some CANCELLED
         \<and> (\<forall>later. stagesOf jobId (run later (snd (cancelJob jobId now s))) = [])"
proof -
  have inv: "orchestratorInv s"
    unfolding assms(1) using orchestratorInv_initial by (rule orchestratorInv_run)
  let ?s = "snd (cancelJob jobId now s)"
  have c: "cancelJob jobId now s
             = (True,
                (updateJob jobId
                   (\<lambda>job. job\<lparr>job_status := CANCELLED, job_endTime := Some now, job_progress := 0\<rparr>)
                   s)\<lparr>jobQueue := remove1 jobId (jobQueue s)\<rparr>)"
    using assms(2, 3) by (simp add: cancelJob_def)
  from inv assms(2, 3) have 1: "jobId \<in> set (jobQueue s)"
    by (auto simp: orchestratorInv_def)
  have 2: "fst (cancelJob jobId now s)"
    by (simp add: c)
  from inv have 3: "jobId \<notin> set (jobQueue ?s)"
    by (simp add: c orchestratorInv_def)
  have 4: "map_option job_status (lookupJob ?s jobId) = Some CANCELLED"
    using assms(2) lookupJob_updateJob [of jobId _ s jobId]
    by (simp add: c lookupJob_def)
  from inv 1 have "notStarted jobId ?s"
    by (auto simp: c notStarted_def orchestratorInv_def)
  then have 5: "\<forall>later. stagesOf jobId (run later ?s) = []"
    by (auto intro: notStarted_stagesOf notStarted_run)
  from 1 2 3 4 5 show ?thesis by blast
qed

text \<open>Two jobs are created; the first starts at once, the second waits in the queue
  and is cancelled. Afterwards the first job runs to completion and the queue is
  processed again.\<close>

theorem C9_cancelled_pending_job_never_runs_witness:
  "map_option job_status
     (lookupJob (run [CreateJob [] 0, CreateJob [] 1] initialOrchestrator) 1) = Some PENDING
   \<and> jobQueue (run [CreateJob [] 0, CreateJob [] 1] initialOrchestrator) = [1]
   \<and> jobQueue (snd (cancelJob 1 2 (run [CreateJob [] 0, CreateJob [] 1] initialOrchestrator))) = []
   \<and> stagesOf 1
        (run [Resume 0 Resolved False 3, Resume 0 Resolved False 4, Resume 0 Resolved False 5,
              Resume 0 Resolved False 6, ProcessQueue]
           (snd (cancelJob 1 2 (run [CreateJob [] 0, CreateJob [] 1] initialOrchestrator)))) = []
   \<and> stagesOf 0
        (run [Resume 0 Resolved False 3, Resume 0 Resolved False 4, Resume 0 Resolved False 5,
              Resume 0 Resolved False 6, ProcessQueue]
           (snd (cancelJob 1 2 (run [CreateJob [] 0, CreateJob [] 1] initialOrchestrator))))
       = [UPLOADING, EXTRACTING, CHUNKING, EMBEDDING, INDEXING]"
proof -
  let ?s = "run [CreateJob [] 0, CreateJob [] 1] initialOrchestrator"
  let ?job = "\<lparr>job_id = 1, job_files = [], job_status = PENDING, job_progress = 0,
               job_startTime = 1, job_endTime = None, job_error = None\<rparr>"
  have s: "?s = \<lparr>jobs = [(0, \<lparr>job_id = 0, job_files = [], job_status = UPLOADING,
                                job_progress = 5, job_startTime = 0, job_endTime = None,
                                job_error = None\<rparr>), (1, ?job)],
                  jobQueue = [1], isProcessing = True, activeJobs = 1, nextId = 2,
                  running = [(0, AwaitInit)], stageLog = [(0, UPLOADING)]\<rparr>"
    by (simp add: run_def createJob_def processQueue_def initialOrchestrator_def lookupJob_def
          enterStage_def updateJob_def maxConcurrentJobs_def Let_def)
  have a: "lookupJob ?s 1 = Some ?job"
    by (subst s) (simp add: lookupJob_def)
  have a': "map_option job_status (lookupJob ?s 1) = Some PENDING"
    using a by simp
  have b: "job_status ?job = PENDING" by simp
  have q: "jobQueue ?s = [1]"
    by (subst s) simp
  have cs: "snd (cancelJob 1 2 ?s)
              = \<lparr>jobs = [(0, \<lparr>job_id = 0, job_files = [], job_status = UPLOADING,
                                  job_progress = 5, job_startTime = 0, job_endTime = None,
                                  job_error = None\<rparr>),
                         (1, \<lparr>job_id = 1, job_files = [], job_status = CANCELLED,
                                  job_progress = 0, job_startTime = 1, job_endTime = Some 2,
                                  job_error = None\<rparr>)],
                 jobQueue = [], isProcessing = True, activeJobs = 1, nextId = 2,
                 running = [(0, AwaitInit)], stageLog = [(0, UPLOADING)]\<rparr>"
    by (subst s) (simp add: cancelJob_def lookupJob_def updateJob_def)
  have c: "stagesOf 0
        (run [Resume 0 Resolved False 3, Resume 0 Resolved False 4, Resume 0 Resolved False 5,
              Resume 0 Resolved False 6, ProcessQueue]
           (snd (cancelJob 1 2 ?s)))
       = [UPLOADING, EXTRACTING, CHUNKING, EMBEDDING, INDEXING]"
    by (subst cs)
       (simp add: run_def resume_def enterStage_def updateJob_def setStage_def completeJob_def
          finishRun_def processQueue_def stagesOf_def maxConcurrentJobs_def Let_def)
  have d: "jobQueue (snd (cancelJob 1 2 ?s)) = []"
    by (subst cs) simp
  from C9_cancelled_pending_job_never_runs [OF refl a b, of 2] a' q c d
  show ?thesis
    by blast
qed

subsection \<open>Chunk indices and totals of a document\<close>

text \<open>A markdown document with two sections, here the same section twice: a header,
  twenty-one one-letter words, a blank line and a closing word.\<close>

definition sectionText :: string where
  "sectionText =
     ''# A'' @ [NL] @ ''a b c d e f g h i j k l m n o p q r s t u'' @ [NL, NL] @ ''v''"

definition twoSectionFile :: UploadedFile where
  "twoSectionFile =
     \<lparr>file_name = ''notes.md'', file_size = 101, file_type = ''text/markdown'',
      file_content = sectionText @ [NL] @ sectionText, file_lastModified = 0,
      file_contentHash = None\<rparr>"

lemma twoSectionFile_sections:
  "extractSections (cleanText (file_content twoSectionFile)) (file_name twoSectionFile) =
     [\<lparr>sec_title = ''A'', sec_content = sectionText, sec_position = 0\<rparr>,
      \<lparr>sec_title = ''A'', sec_content = sectionText, sec_position = 1\<rparr>]"
  by (simp add: twoSectionFile_def sectionText_def NL_def SP_def CR_def cleanText_def trim_def
        isWhiteSpace_def bestMatches_def patterns_def markdownHeaders_def underlinedHeaders_def
        numberedSections_def matchAllFrom.simps matchRep.simps isLineTerminator_def isDigit_def
        slice_def extractSections_def findMatch_def)

text \<open>With the fallback token count, a section of this text gives exactly one chunk
  (the header and the twenty-one words: 23 words, 30 tokens).\<close>

lemma sectionText_chunks:
  "map (\<lambda>c. (md_chunkIndex (chunk_metadata c), md_totalChunks (chunk_metadata c)))
     (createTokenBasedChunks None uuid sectionText baseMetadata startingIndex)
   = [(startingIndex, 1)]"
  by (simp add: sectionText_def NL_def SP_def trim_def isWhiteSpace_def slice_def
        createTokenBasedChunks_def chunkLoop.simps chunkStep_def findBestSplitPoint_def
        separators_def lastIndexOf_def tokensToChars_def chunkSize_def maxChunksPerDocument_def
        minChunkLength_def chunkOverlap_def countTokens_def approximateTokens_def
        isPunctuation_def wordBoundary_def addChunk_def setTotalChunks_def)

text \<open>
  Claim C2. The chunk indices of a document should be the range from 0 to
  \<open>totalChunks\<close>, with the same \<open>totalChunks\<close>, the document's chunk count, on every
  chunk, also for a document of several sections. The indices are numbered through the
  document, but \<open>totalChunks\<close> is written by \<open>createTokenBasedChunks\<close>, which sees one
  section: for the two-section file above \<open>processFile\<close> returns two chunks with
  indices 0 and 1, each carrying \<open>totalChunks = 1\<close>, so the second chunk has
  \<open>chunkIndex = totalChunks\<close>.
\<close>

theorem C2_totalChunks_counts_one_section:
  "map (\<lambda>c. (md_chunkIndex (chunk_metadata c), md_totalChunks (chunk_metadata c)))
     (processFile None uuid now twoSectionFile)
   = [(0, 1), (1, 1)]"
proof -
  let ?meta = "sectionMetadata uuid now twoSectionFile"
  let ?first = "createTokenBasedChunks None uuid sectionText
                  (?meta \<lparr>sec_title = ''A'', sec_content = sectionText, sec_position = 0\<rparr>) 0"
  have one: "length ?first = 1"
    using sectionText_chunks [of uuid "?meta \<lparr>sec_title = ''A'', sec_content = sectionText,
                                              sec_position = 0\<rparr>" 0]
    by (metis length_map length_Cons list.size(3) One_nat_def)
  have "processFile None uuid now twoSectionFile
          = ?first
            @ createTokenBasedChunks None uuid sectionText
                (?meta \<lparr>sec_title = ''A'', sec_content = sectionText, sec_position = 1\<rparr>)
                (length ?first)"
    by (simp add: processFile_def twoSectionFile_sections Let_def)
  then show ?thesis
    by (simp only: map_append sectionText_chunks one) simp
qed

end
